theory Spec2Isabelle
  imports Complex_Main
begin

section \<open>EasyLang: lexer\<close>

text \<open>
  The repository holds two revisions of one interpreter: \<^verbatim>\<open>easylang.c\<close> (the first)
  and \<^verbatim>\<open>easylang_version2.0.c\<close> (the second, with functions, return and scopes).
  Definitions without a suffix embed the second revision; a definition with the suffix
  \<open>_v1\<close> embeds the function of the same name of the first revision where the two differ,
  and a definition with the suffix \<open>_h\<close> embeds a function of the second revision together
  with the heap blocks it allocates and frees.
\<close>

subsection \<open>Tokens and the lexer state\<close>

datatype TokenType =
    T_EOF | T_IDENTIFIER | T_NUMBER | T_STRING
  | T_SET | T_PRINT | T_READ | T_IF | T_THEN | T_END | T_WHILE | T_DO | T_TO
  | T_PLUS | T_MINUS | T_MUL | T_DIV | T_MOD
  | T_LPAREN | T_RPAREN
  | T_EQ | T_NEQ | T_GT | T_LT | T_LE | T_GE
  | T_AND
  | T_DOT | T_NEWLINE
  | T_FUNCTION | T_RETURN | T_LBRACE | T_RBRACE | T_COMMA
  | T_UNKNOWN

text \<open>The field \<^verbatim>\<open>text\<close> of the C struct is \<open>tok_text\<close> here; \<open>None\<close> is the null pointer.\<close>

record Token =
  ttype :: TokenType
  tok_text :: "string option"

text \<open>
  \<open>src\<close> holds the bytes of the source file; the terminating NUL that \<^verbatim>\<open>main\<close>
  appends is not stored, \<open>peekc\<close> answers it at the end of the list. A NUL byte inside
  the file ends the C string early, which \<open>peekc\<close> and \<open>getc_l\<close> reproduce: the
  cursor never moves past it. The line counter is a C \<^verbatim>\<open>int\<close>, whose overflow C leaves
  undefined; it is an unbounded integer here, which is the counter of the C code as long as
  that stays below \<open>2^31 - 1\<close> (a file of fewer line feeds). What is proved about the
  counter is proved under that bound.
\<close>

record Lexer =
  src :: string
  pos :: nat
  line :: int

abbreviation NUL :: char where "NUL \<equiv> CHR 0x00"
abbreviation LF :: char where "LF \<equiv> CHR 0x0A"
abbreviation CR :: char where "CR \<equiv> CHR 0x0D"
abbreviation TAB :: char where "TAB \<equiv> CHR 0x09"

subsection \<open>Character classes of \<^verbatim>\<open>ctype.h\<close> in the C locale\<close>

definition isdigit :: "char \<Rightarrow> bool" where
  "isdigit c = (let n = (of_char c :: nat) in 48 \<le> n \<and> n \<le> 57)"

definition isupper :: "char \<Rightarrow> bool" where
  "isupper c = (let n = (of_char c :: nat) in 65 \<le> n \<and> n \<le> 90)"

definition isalpha :: "char \<Rightarrow> bool" where
  "isalpha c = (let n = (of_char c :: nat) in (65 \<le> n \<and> n \<le> 90) \<or> (97 \<le> n \<and> n \<le> 122))"

definition isalnum :: "char \<Rightarrow> bool" where
  "isalnum c = (isalpha c \<or> isdigit c)"

definition tolower :: "char \<Rightarrow> char" where
  "tolower c = (if isupper c then char_of (of_char c + (32::nat)) else c)"

subsection \<open>Utility functions\<close>

definition peekc :: "Lexer \<Rightarrow> char" where
  "peekc lx = (if pos lx < length (src lx) then src lx ! pos lx else NUL)"

definition getc_l :: "Lexer \<Rightarrow> char \<times> Lexer" where
  "getc_l lx =
     (let c = peekc lx;
          lx1 = (if c \<noteq> NUL then lx\<lparr>pos := pos lx + 1\<rparr> else lx);
          lx2 = (if c = LF then lx1\<lparr>line := line lx1 + 1\<rparr> else lx1)
      in (c, lx2))"

definition substr_alloc :: "string \<Rightarrow> nat \<Rightarrow> nat \<Rightarrow> string" where
  "substr_alloc s a b = (let len = (if b > a then b - a else 0) in take len (drop a s))"

definition make_token :: "TokenType \<Rightarrow> string option \<Rightarrow> Token" where
  "make_token t s = \<lparr>ttype = t, tok_text = s\<rparr>"

lemma peekc_not_NUL: "peekc lx \<noteq> NUL \<Longrightarrow> pos lx < length (src lx)"
  by (simp add: peekc_def split: if_splits)

lemma getc_l_src [simp]: "src (snd (getc_l lx)) = src lx"
  by (simp add: getc_l_def Let_def)

lemma getc_l_fst [simp]: "fst (getc_l lx) = peekc lx"
  by (simp add: getc_l_def Let_def)

lemma getc_l_pos: "pos (snd (getc_l lx)) = (if peekc lx \<noteq> NUL then pos lx + 1 else pos lx)"
  by (simp add: getc_l_def Let_def)

lemma getc_l_line: "line (snd (getc_l lx)) = (if peekc lx = LF then line lx + 1 else line lx)"
  by (simp add: getc_l_def Let_def)

lemma getc_l_measure:
  "peekc lx \<noteq> NUL \<Longrightarrow> length (src lx) - pos (snd (getc_l lx)) < length (src lx) - pos lx"
  using peekc_not_NUL [of lx] by (simp add: getc_l_pos)

lemma getc_l_measure_le:
  "length (src lx) - pos (snd (getc_l lx)) \<le> length (src lx) - pos lx"
  by (simp add: getc_l_pos) arith

lemma isalnum_not_NUL: "isalnum c \<Longrightarrow> c \<noteq> NUL"
  by (auto simp: isalnum_def isalpha_def isdigit_def)

subsection \<open>The loops of the lexer\<close>

text \<open>The comment loop \<^verbatim>\<open>while (peekc(lx) != '\0' && getc_l(lx) != '\n') {}\<close>.\<close>

function skip_comment :: "Lexer \<Rightarrow> Lexer" where
  "skip_comment lx =
     (if peekc lx \<noteq> NUL
      then (if fst (getc_l lx) \<noteq> LF then skip_comment (snd (getc_l lx)) else snd (getc_l lx))
      else lx)"
  by pat_completeness auto
termination
  by (relation "measure (\<lambda>lx. length (src lx) - pos lx)") (auto simp: getc_l_measure)

declare skip_comment.simps [simp del]

text \<open>The scanning loop of \<^verbatim>\<open>lex_string\<close>.\<close>

function lex_string_loop :: "Lexer \<Rightarrow> Lexer" where
  "lex_string_loop lx =
     (if peekc lx \<noteq> NUL \<and> peekc lx \<noteq> CHR ''\"''
      then (if peekc lx = CHR 0x5C
            then (let lx1 = snd (getc_l lx)
                  in lex_string_loop (if peekc lx1 \<noteq> NUL then snd (getc_l lx1) else lx1))
            else lex_string_loop (snd (getc_l lx)))
      else lx)"
  by pat_completeness auto
termination
proof (relation "measure (\<lambda>lx. length (src lx) - pos lx)")
  show "wf (measure (\<lambda>lx. length (src lx) - pos lx))" by simp
next
  fix lx x
  assume a: "peekc lx \<noteq> NUL \<and> peekc lx \<noteq> CHR ''\"''" and x: "x = snd (getc_l lx)"
  have "length (src lx) - pos x < length (src lx) - pos lx"
    using a x getc_l_measure by blast
  moreover have "length (src lx) - pos (snd (getc_l x)) \<le> length (src lx) - pos x"
    using getc_l_measure_le [of x] x by simp
  moreover have "src x = src lx"
    using x by simp
  ultimately show "(if peekc x \<noteq> NUL then snd (getc_l x) else x, lx)
      \<in> measure (\<lambda>lx. length (src lx) - pos lx)"
    by auto
next
  fix lx
  assume "peekc lx \<noteq> NUL \<and> peekc lx \<noteq> CHR ''\"''"
  then show "(snd (getc_l lx), lx) \<in> measure (\<lambda>lx. length (src lx) - pos lx)"
    by (simp add: getc_l_measure)
qed

declare lex_string_loop.simps [simp del]

definition lex_string :: "Lexer \<Rightarrow> Token \<times> Lexer" where
  "lex_string lx =
     (let lx0 = snd (getc_l lx);
          start = pos lx0;
          lx1 = lex_string_loop lx0;
          end = pos lx1;
          lx2 = (if peekc lx1 = CHR ''\"'' then snd (getc_l lx1) else lx1);
          s = substr_alloc (src lx) start end
      in (make_token T_STRING (Some s), lx2))"

text \<open>The scanning loop of \<^verbatim>\<open>lex_ident_or_number\<close>.\<close>

function ident_loop :: "Lexer \<Rightarrow> Lexer" where
  "ident_loop lx =
     (let c = peekc lx
      in if isalnum c \<or> c = CHR ''_'' then ident_loop (snd (getc_l lx))
         else if c = CHR ''.'' then ident_loop (snd (getc_l lx))
         else lx)"
  by pat_completeness auto
termination
proof (relation "measure (\<lambda>lx. length (src lx) - pos lx)")
  show "wf (measure (\<lambda>lx. length (src lx) - pos lx))" by simp
next
  fix lx c
  assume "c = peekc lx" and "isalnum c \<or> c = CHR ''_''"
  then have "peekc lx \<noteq> NUL"
    using isalnum_not_NUL by auto
  then show "(snd (getc_l lx), lx) \<in> measure (\<lambda>lx. length (src lx) - pos lx)"
    by (simp add: getc_l_measure)
next
  fix lx c
  assume "c = peekc lx" and "c = CHR ''.''"
  then have "peekc lx \<noteq> NUL"
    by auto
  then show "(snd (getc_l lx), lx) \<in> measure (\<lambda>lx. length (src lx) - pos lx)"
    by (simp add: getc_l_measure)
qed

declare ident_loop.simps [simp del]

text \<open>
  The classification loop of \<^verbatim>\<open>lex_ident_or_number\<close>, over the characters of the
  lexeme, with the two flags it updates.
\<close>

fun numeric_scan :: "string \<Rightarrow> bool \<Rightarrow> nat \<Rightarrow> bool" where
  "numeric_scan [] numeric dots = numeric"
| "numeric_scan (c # cs) numeric dots =
     (if c = CHR ''.'' then numeric_scan cs (if dots + 1 > 1 then False else numeric) (dots + 1)
      else if \<not> isdigit c \<and> c \<noteq> CHR ''.'' then numeric_scan cs False dots
      else numeric_scan cs numeric dots)"

definition lex_ident_or_number :: "Lexer \<Rightarrow> Token \<times> Lexer" where
  "lex_ident_or_number lx =
     (let start = pos lx;
          lx1 = ident_loop lx;
          end = pos lx1;
          s = substr_alloc (src lx) start end
      in if numeric_scan s True 0 then (make_token T_NUMBER (Some s), lx1)
         else (make_token T_IDENTIFIER (Some (map tolower s)), lx1))"

text \<open>
  The first loop of \<^verbatim>\<open>next_token\<close>: it either returns a \<open>T_NEWLINE\<close> token
  (\<open>Some\<close>) or leaves the loop by \<^verbatim>\<open>break\<close> or at the end of the input (\<open>None\<close>).
\<close>

function skip_blank :: "Lexer \<Rightarrow> Token option \<times> Lexer" where
  "skip_blank lx =
     (let c = peekc lx
      in if c \<noteq> NUL
         then (if c = CHR '' '' \<or> c = TAB then skip_blank (snd (getc_l lx))
               else if c = CR
                    then (let lx1 = snd (getc_l lx);
                              lx2 = (if peekc lx1 = LF then snd (getc_l lx1) else lx1)
                          in (Some (make_token T_NEWLINE None), lx2))
               else if c = LF then (Some (make_token T_NEWLINE None), snd (getc_l lx))
               else if c = CHR ''#'' then skip_blank (skip_comment lx)
               else (None, lx))
         else (None, lx))"
  by pat_completeness auto


definition remaining :: "Lexer \<Rightarrow> nat" where
  "remaining lx = length (src lx) - pos lx"

lemma remaining_getc_l: "peekc lx \<noteq> NUL \<Longrightarrow> remaining (snd (getc_l lx)) < remaining lx"
  by (simp add: remaining_def getc_l_measure)

lemma remaining_getc_l_le: "remaining (snd (getc_l lx)) \<le> remaining lx"
  by (simp add: remaining_def getc_l_measure_le)

lemma skip_comment_src [simp]: "src (skip_comment lx) = src lx"
  by (induction lx rule: skip_comment.induct) (subst skip_comment.simps, simp)

lemma skip_comment_remaining_le: "remaining (skip_comment lx) \<le> remaining lx"
proof (induction lx rule: skip_comment.induct)
  case (1 lx)
  show ?case
  proof (cases "peekc lx \<noteq> NUL \<and> fst (getc_l lx) \<noteq> LF")
    case True
    then have "skip_comment lx = skip_comment (snd (getc_l lx))"
      by (subst skip_comment.simps) simp
    moreover have "remaining (skip_comment (snd (getc_l lx))) \<le> remaining (snd (getc_l lx))"
      using True 1 by simp
    ultimately show ?thesis
      using remaining_getc_l_le [of lx] by simp
  next
    case False
    then show ?thesis
      using remaining_getc_l_le [of lx] by (subst skip_comment.simps) auto
  qed
qed

lemma skip_comment_remaining:
  assumes "peekc lx \<noteq> NUL"
  shows "remaining (skip_comment lx) < remaining lx"
proof (cases "fst (getc_l lx) \<noteq> LF")
  case True
  then have "skip_comment lx = skip_comment (snd (getc_l lx))"
    using assms by (subst skip_comment.simps) simp
  then show ?thesis
    using skip_comment_remaining_le [of "snd (getc_l lx)"] remaining_getc_l [OF assms] by simp
next
  case False
  then have "skip_comment lx = snd (getc_l lx)"
    using assms by (subst skip_comment.simps) simp
  then show ?thesis
    using remaining_getc_l [OF assms] by simp
qed

termination skip_blank
proof (relation "measure remaining")
  show "wf (measure remaining)" by simp
next
  fix lx c
  assume "c = peekc lx" "c \<noteq> NUL"
  then show "(snd (getc_l lx), lx) \<in> measure remaining"
    by (simp add: remaining_getc_l)
next
  fix lx c
  assume "c = peekc lx" "c \<noteq> NUL"
  then show "(skip_comment lx, lx) \<in> measure remaining"
    by (simp add: skip_comment_remaining)
qed

declare skip_blank.simps [simp del]

subsection \<open>\<^verbatim>\<open>next_token\<close>\<close>

text \<open>The chain of \<^verbatim>\<open>strcmp\<close> tests that maps an identifier to its keyword token.\<close>

definition keyword :: "string \<Rightarrow> TokenType option" where
  "keyword s =
     (if s = ''set'' then Some T_SET
      else if s = ''print'' then Some T_PRINT
      else if s = ''read'' then Some T_READ
      else if s = ''if'' then Some T_IF
      else if s = ''then'' then Some T_THEN
      else if s = ''end'' then Some T_END
      else if s = ''while'' then Some T_WHILE
      else if s = ''do'' then Some T_DO
      else if s = ''to'' then Some T_TO
      else if s = ''and'' then Some T_AND
      else if s = ''function'' then Some T_FUNCTION
      else if s = ''return'' then Some T_RETURN
      else None)"

definition keyword_v1 :: "string \<Rightarrow> TokenType option" where
  "keyword_v1 s =
     (if s = ''set'' then Some T_SET
      else if s = ''print'' then Some T_PRINT
      else if s = ''read'' then Some T_READ
      else if s = ''if'' then Some T_IF
      else if s = ''then'' then Some T_THEN
      else if s = ''end'' then Some T_END
      else if s = ''while'' then Some T_WHILE
      else if s = ''do'' then Some T_DO
      else if s = ''to'' then Some T_TO
      else if s = ''and'' then Some T_AND
      else None)"

text \<open>
  The part of \<^verbatim>\<open>next_token\<close> after its first loop, in the order of the source. The
  test \<^verbatim>\<open>isdigit(c) || c=='.'\<close> stands before the test \<^verbatim>\<open>c == '.'\<close>, as in
  the source.
\<close>

definition dispatch :: "Lexer \<Rightarrow> Token \<times> Lexer" where
  "dispatch lx =
     (let c = peekc lx
      in if c = NUL then (make_token T_EOF None, lx)
         else if c = CHR ''\"'' then lex_string lx
         else if isalpha c \<or> c = CHR ''_''
         then (let (t, lx1) = lex_ident_or_number lx
               in if ttype t = T_IDENTIFIER \<and> tok_text t \<noteq> None
                  then (case keyword (the (tok_text t)) of
                          Some k \<Rightarrow> (make_token k None, lx1)
                        | None \<Rightarrow> (t, lx1))
                  else (t, lx1))
         else if isdigit c \<or> c = CHR ''.'' then lex_ident_or_number lx
         else if c = CHR ''.'' then (make_token T_DOT None, snd (getc_l lx))
         else if c = CHR ''('' then (make_token T_LPAREN None, snd (getc_l lx))
         else if c = CHR '')'' then (make_token T_RPAREN None, snd (getc_l lx))
         else if c = CHR ''{'' then (make_token T_LBRACE None, snd (getc_l lx))
         else if c = CHR ''}'' then (make_token T_RBRACE None, snd (getc_l lx))
         else if c = CHR '','' then (make_token T_COMMA None, snd (getc_l lx))
         else if c = CHR ''+'' then (make_token T_PLUS None, snd (getc_l lx))
         else if c = CHR ''-'' then (make_token T_MINUS None, snd (getc_l lx))
         else if c = CHR ''*'' then (make_token T_MUL None, snd (getc_l lx))
         else if c = CHR ''/'' then (make_token T_DIV None, snd (getc_l lx))
         else if c = CHR ''%'' then (make_token T_MOD None, snd (getc_l lx))
         else if c = CHR ''<''
         then (let lx1 = snd (getc_l lx)
               in if peekc lx1 = CHR ''='' then (make_token T_LE None, snd (getc_l lx1))
                  else (make_token T_LT None, lx1))
         else if c = CHR ''>''
         then (let lx1 = snd (getc_l lx)
               in if peekc lx1 = CHR ''='' then (make_token T_GE None, snd (getc_l lx1))
                  else (make_token T_GT None, lx1))
         else if c = CHR ''=''
         then (let lx1 = snd (getc_l lx)
               in if peekc lx1 = CHR ''='' then (make_token T_EQ None, snd (getc_l lx1))
                  else (make_token T_UNKNOWN None, snd (getc_l (lx1\<lparr>pos := pos lx1 - 1\<rparr>))))
         else if c = CHR ''!''
         then (let lx1 = snd (getc_l lx)
               in if peekc lx1 = CHR ''='' then (make_token T_NEQ None, snd (getc_l lx1))
                  else (make_token T_UNKNOWN None, snd (getc_l (lx1\<lparr>pos := pos lx1 - 1\<rparr>))))
         else (make_token T_UNKNOWN None, snd (getc_l lx)))"

definition next_token :: "Lexer \<Rightarrow> Token \<times> Lexer" where
  "next_token lx =
     (case skip_blank lx of
        (Some t, lx1) \<Rightarrow> (t, lx1)
      | (None, lx1) \<Rightarrow> dispatch lx1)"

text \<open>
  The first revision: no braces, no comma, and the keywords \<^verbatim>\<open>function\<close> and
  \<^verbatim>\<open>return\<close> are plain identifiers. Its helper functions are those of the second
  revision (its \<^verbatim>\<open>lex_ident_or_number\<close> tests \<^verbatim>\<open>!isdigit(s[i])\<close> where the second
  tests \<^verbatim>\<open>!isdigit(s[i]) && s[i] != '.'\<close>, on a character already known not to be a
  dot).
\<close>

definition dispatch_v1 :: "Lexer \<Rightarrow> Token \<times> Lexer" where
  "dispatch_v1 lx =
     (let c = peekc lx
      in if c = NUL then (make_token T_EOF None, lx)
         else if c = CHR ''\"'' then lex_string lx
         else if isalpha c \<or> c = CHR ''_''
         then (let (t, lx1) = lex_ident_or_number lx
               in if ttype t = T_IDENTIFIER \<and> tok_text t \<noteq> None
                  then (case keyword_v1 (the (tok_text t)) of
                          Some k \<Rightarrow> (make_token k None, lx1)
                        | None \<Rightarrow> (t, lx1))
                  else (t, lx1))
         else if isdigit c \<or> c = CHR ''.'' then lex_ident_or_number lx
         else if c = CHR ''.'' then (make_token T_DOT None, snd (getc_l lx))
         else if c = CHR ''('' then (make_token T_LPAREN None, snd (getc_l lx))
         else if c = CHR '')'' then (make_token T_RPAREN None, snd (getc_l lx))
         else if c = CHR ''+'' then (make_token T_PLUS None, snd (getc_l lx))
         else if c = CHR ''-'' then (make_token T_MINUS None, snd (getc_l lx))
         else if c = CHR ''*'' then (make_token T_MUL None, snd (getc_l lx))
         else if c = CHR ''/'' then (make_token T_DIV None, snd (getc_l lx))
         else if c = CHR ''%'' then (make_token T_MOD None, snd (getc_l lx))
         else if c = CHR ''<''
         then (let lx1 = snd (getc_l lx)
               in if peekc lx1 = CHR ''='' then (make_token T_LE None, snd (getc_l lx1))
                  else (make_token T_LT None, lx1))
         else if c = CHR ''>''
         then (let lx1 = snd (getc_l lx)
               in if peekc lx1 = CHR ''='' then (make_token T_GE None, snd (getc_l lx1))
                  else (make_token T_GT None, lx1))
         else if c = CHR ''=''
         then (let lx1 = snd (getc_l lx)
               in if peekc lx1 = CHR ''='' then (make_token T_EQ None, snd (getc_l lx1))
                  else (make_token T_UNKNOWN None, snd (getc_l (lx1\<lparr>pos := pos lx1 - 1\<rparr>))))
         else if c = CHR ''!''
         then (let lx1 = snd (getc_l lx)
               in if peekc lx1 = CHR ''='' then (make_token T_NEQ None, snd (getc_l lx1))
                  else (make_token T_UNKNOWN None, snd (getc_l (lx1\<lparr>pos := pos lx1 - 1\<rparr>))))
         else (make_token T_UNKNOWN None, snd (getc_l lx)))"

definition next_token_v1 :: "Lexer \<Rightarrow> Token \<times> Lexer" where
  "next_token_v1 lx =
     (case skip_blank lx of
        (Some t, lx1) \<Rightarrow> (t, lx1)
      | (None, lx1) \<Rightarrow> dispatch_v1 lx1)"

subsection \<open>Progress of the lexer\<close>


lemma lex_string_loop_src [simp]: "src (lex_string_loop lx) = src lx"
  by (induction lx rule: lex_string_loop.induct) (subst lex_string_loop.simps, simp add: Let_def)

lemma lex_string_loop_remaining_le: "remaining (lex_string_loop lx) \<le> remaining lx"
proof (induction lx rule: lex_string_loop.induct)
  case (1 lx)
  show ?case
  proof (cases "peekc lx \<noteq> NUL \<and> peekc lx \<noteq> CHR ''\"''")
    case False
    then show ?thesis by (subst lex_string_loop.simps) auto
  next
    case True
    note t = True
    show ?thesis
    proof (cases "peekc lx = CHR 0x5C")
      case True
      define lx1 where "lx1 = snd (getc_l lx)"
      define lx2 where "lx2 = (if peekc lx1 \<noteq> NUL then snd (getc_l lx1) else lx1)"
      have "lex_string_loop lx = lex_string_loop lx2"
        using t True by (subst lex_string_loop.simps) (simp add: Let_def lx1_def lx2_def)
      moreover have "remaining (lex_string_loop lx2) \<le> remaining lx2"
        using 1(1) [OF t True lx1_def] by (simp add: lx2_def)
      moreover have "remaining lx2 \<le> remaining lx1"
        using remaining_getc_l_le [of lx1] by (simp add: lx2_def)
      moreover have "remaining lx1 \<le> remaining lx"
        using remaining_getc_l_le [of lx] by (simp add: lx1_def)
      ultimately show ?thesis by simp
    next
      case False
      have "lex_string_loop lx = lex_string_loop (snd (getc_l lx))"
        using t False by (subst lex_string_loop.simps) simp
      moreover have "remaining (lex_string_loop (snd (getc_l lx))) \<le> remaining (snd (getc_l lx))"
        using 1(2) [OF t False] .
      ultimately show ?thesis
        using remaining_getc_l_le [of lx] by simp
    qed
  qed
qed

lemma ident_loop_src [simp]: "src (ident_loop lx) = src lx"
  by (induction lx rule: ident_loop.induct) (subst ident_loop.simps, simp add: Let_def)

lemma ident_loop_remaining_le: "remaining (ident_loop lx) \<le> remaining lx"
proof (induction lx rule: ident_loop.induct)
  case (1 lx)
  show ?case
  proof (cases "isalnum (peekc lx) \<or> peekc lx = CHR ''_'' \<or> peekc lx = CHR ''.''")
    case False
    then show ?thesis by (subst ident_loop.simps) (simp add: Let_def)
  next
    case True
    then have "ident_loop lx = ident_loop (snd (getc_l lx))"
      by (subst ident_loop.simps) (auto simp add: Let_def)
    moreover have "remaining (ident_loop (snd (getc_l lx))) \<le> remaining (snd (getc_l lx))"
      using True 1 by (cases "isalnum (peekc lx) \<or> peekc lx = CHR ''_''") auto
    ultimately show ?thesis
      using remaining_getc_l_le [of lx] by simp
  qed
qed

lemma ident_loop_remaining:
  assumes "isalnum (peekc lx) \<or> peekc lx = CHR ''_'' \<or> peekc lx = CHR ''.''"
  shows "remaining (ident_loop lx) < remaining lx"
proof -
  have "ident_loop lx = ident_loop (snd (getc_l lx))"
    using assms by (subst ident_loop.simps) (auto simp add: Let_def)
  moreover have "peekc lx \<noteq> NUL"
    using assms isalnum_not_NUL by auto
  ultimately show ?thesis
    using ident_loop_remaining_le [of "snd (getc_l lx)"] remaining_getc_l [of lx] by simp
qed

lemma skip_blank_src [simp]: "src (snd (skip_blank lx)) = src lx"
  by (induction lx rule: skip_blank.induct) (subst skip_blank.simps, simp add: Let_def)

lemma skip_blank_remaining_le: "remaining (snd (skip_blank lx)) \<le> remaining lx"
proof (induction lx rule: skip_blank.induct)
  case (1 lx)
  define c where "c = peekc lx"
  consider (stop) "c = NUL \<or> (c \<noteq> CHR '' '' \<and> c \<noteq> TAB \<and> c \<noteq> CR \<and> c \<noteq> LF \<and> c \<noteq> CHR ''#'')"
    | (blank) "c = CHR '' '' \<or> c = TAB" | (cr) "c = CR" | (lf) "c = LF" | (hash) "c = CHR ''#''"
    by blast
  then show ?case
  proof cases
    case stop
    then show ?thesis by (subst skip_blank.simps) (auto simp add: Let_def c_def)
  next
    case blank
    then have "skip_blank lx = skip_blank (snd (getc_l lx))"
      by (subst skip_blank.simps) (auto simp add: Let_def c_def)
    moreover have "remaining (snd (skip_blank (snd (getc_l lx)))) \<le> remaining (snd (getc_l lx))"
      using blank 1(1) [OF c_def] by auto
    ultimately show ?thesis
      using remaining_getc_l_le [of lx] by simp
  next
    case cr
    then show ?thesis
      using remaining_getc_l_le [of lx] remaining_getc_l_le [of "snd (getc_l lx)"]
      by (subst skip_blank.simps) (auto simp add: Let_def c_def)
  next
    case lf
    then show ?thesis
      using remaining_getc_l_le [of lx]
      by (subst skip_blank.simps) (auto simp add: Let_def c_def)
  next
    case hash
    then have "skip_blank lx = skip_blank (skip_comment lx)"
      by (subst skip_blank.simps) (auto simp add: Let_def c_def)
    moreover have "remaining (snd (skip_blank (skip_comment lx))) \<le> remaining (skip_comment lx)"
      using hash 1(2) [OF c_def] by auto
    ultimately show ?thesis
      using skip_comment_remaining_le [of lx] by simp
  qed
qed

lemma skip_blank_Some:
  "fst (skip_blank lx) = Some t \<Longrightarrow> t = make_token T_NEWLINE None \<and> remaining (snd (skip_blank lx)) < remaining lx"
proof (induction lx rule: skip_blank.induct)
  case (1 lx)
  define c where "c = peekc lx"
  consider (stop) "c = NUL \<or> (c \<noteq> CHR '' '' \<and> c \<noteq> TAB \<and> c \<noteq> CR \<and> c \<noteq> LF \<and> c \<noteq> CHR ''#'')"
    | (blank) "c = CHR '' '' \<or> c = TAB" | (cr) "c = CR" | (lf) "c = LF" | (hash) "c = CHR ''#''"
    by blast
  then show ?case
  proof cases
    case stop
    then have "fst (skip_blank lx) = None"
      by (subst skip_blank.simps) (auto simp add: Let_def c_def)
    then show ?thesis using 1(3) by simp
  next
    case blank
    then have e: "skip_blank lx = skip_blank (snd (getc_l lx))"
      by (subst skip_blank.simps) (auto simp add: Let_def c_def)
    then have "t = make_token T_NEWLINE None \<and>
        remaining (snd (skip_blank (snd (getc_l lx)))) < remaining (snd (getc_l lx))"
      using blank 1(1) [OF c_def] 1(3) by auto
    then show ?thesis
      using remaining_getc_l_le [of lx] e by simp
  next
    case cr
    then have "peekc lx \<noteq> NUL" by (simp add: c_def)
    then show ?thesis
      using cr 1(3) remaining_getc_l [of lx] remaining_getc_l_le [of "snd (getc_l lx)"]
      by (subst (asm) skip_blank.simps, subst skip_blank.simps) (auto simp add: Let_def c_def)
  next
    case lf
    then have "peekc lx \<noteq> NUL" by (simp add: c_def)
    then show ?thesis
      using lf 1(3) remaining_getc_l [of lx]
      by (subst (asm) skip_blank.simps, subst skip_blank.simps) (auto simp add: Let_def c_def)
  next
    case hash
    then have e: "skip_blank lx = skip_blank (skip_comment lx)"
      by (subst skip_blank.simps) (auto simp add: Let_def c_def)
    then have "t = make_token T_NEWLINE None \<and>
        remaining (snd (skip_blank (skip_comment lx))) < remaining (skip_comment lx)"
      using hash 1(2) [OF c_def] 1(3) by auto
    then show ?thesis
      using skip_comment_remaining_le [of lx] e by simp
  qed
qed

lemma lex_string_remaining:
  "peekc lx \<noteq> NUL \<Longrightarrow> remaining (snd (lex_string lx)) < remaining lx"
  using remaining_getc_l [of lx] lex_string_loop_remaining_le [of "snd (getc_l lx)"]
    remaining_getc_l_le [of "lex_string_loop (snd (getc_l lx))"]
  by (auto simp add: lex_string_def Let_def)

lemma lex_ident_or_number_remaining:
  "isalnum (peekc lx) \<or> peekc lx = CHR ''_'' \<or> peekc lx = CHR ''.'' \<Longrightarrow>
     remaining (snd (lex_ident_or_number lx)) < remaining lx"
  using ident_loop_remaining [of lx] by (simp add: lex_ident_or_number_def Let_def)

lemma lex_ident_or_number_ttype:
  "ttype (fst (lex_ident_or_number lx)) = T_NUMBER \<or> ttype (fst (lex_ident_or_number lx)) = T_IDENTIFIER"
  by (simp add: lex_ident_or_number_def Let_def make_token_def)

lemma keyword_neq: "keyword s = Some k \<Longrightarrow> k \<noteq> T_EOF \<and> k \<noteq> T_DOT"
  by (auto simp: keyword_def split: if_splits)

lemma keyword_v1_neq: "keyword_v1 s = Some k \<Longrightarrow> k \<noteq> T_EOF \<and> k \<noteq> T_DOT"
  by (auto simp: keyword_v1_def split: if_splits)

lemma getc_l_back:
  "peekc lx \<noteq> LF \<Longrightarrow> peekc lx \<noteq> NUL \<Longrightarrow> (snd (getc_l lx))\<lparr>pos := pos (snd (getc_l lx)) - 1\<rparr> = lx"
  by (simp add: getc_l_def Let_def)

lemma lex_ident_or_number_not:
  "ttype (fst (lex_ident_or_number lx)) \<noteq> T_DOT" "ttype (fst (lex_ident_or_number lx)) \<noteq> T_EOF"
  using lex_ident_or_number_ttype [of lx] by auto

lemma lex_string_ttype [simp]: "ttype (fst (lex_string lx)) = T_STRING"
  by (simp add: lex_string_def Let_def make_token_def)

lemma make_token_ttype [simp]: "ttype (make_token t s) = t"
  by (simp add: make_token_def)

lemma dispatch_not_DOT: "ttype (fst (dispatch lx)) \<noteq> T_DOT"
  using lex_ident_or_number_not(1) [of lx]
  by (auto simp add: dispatch_def Let_def split: prod.splits option.splits dest: keyword_neq)

lemma dispatch_v1_not_DOT: "ttype (fst (dispatch_v1 lx)) \<noteq> T_DOT"
  using lex_ident_or_number_not(1) [of lx]
  by (auto simp add: dispatch_v1_def Let_def split: prod.splits option.splits dest: keyword_v1_neq)

lemma dispatch_EOF: "ttype (fst (dispatch lx)) = T_EOF \<longleftrightarrow> peekc lx = NUL"
  using lex_ident_or_number_not(2) [of lx]
  by (auto simp add: dispatch_def Let_def split: prod.splits option.splits dest: keyword_neq)

lemma remaining_getc_l2:
  "peekc lx \<noteq> NUL \<Longrightarrow> remaining (snd (getc_l (snd (getc_l lx)))) < remaining lx"
  using remaining_getc_l [of lx] remaining_getc_l_le [of "snd (getc_l lx)"] by simp

lemma remaining_getc_l_back:
  "peekc lx \<noteq> NUL \<Longrightarrow> peekc lx \<noteq> LF \<Longrightarrow>
     remaining (snd (getc_l ((snd (getc_l lx))\<lparr>pos := pos (snd (getc_l lx)) - 1\<rparr>))) < remaining lx"
proof -
  assume a: "peekc lx \<noteq> NUL" and b: "peekc lx \<noteq> LF"
  have "(snd (getc_l lx))\<lparr>pos := pos (snd (getc_l lx)) - 1\<rparr> = lx"
    using b a by (rule getc_l_back)
  then show ?thesis
    using remaining_getc_l [OF a] by (simp only:)
qed

lemma dispatch_remaining:
  assumes "peekc lx \<noteq> NUL"
  shows "remaining (snd (dispatch lx)) < remaining lx"
proof -
  have a: "remaining (snd (getc_l lx)) < remaining lx"
    using assms by (rule remaining_getc_l)
  have b: "remaining (snd (getc_l (snd (getc_l lx)))) < remaining lx"
    using assms by (rule remaining_getc_l2)
  have c: "remaining (snd (getc_l ((snd (getc_l lx))\<lparr>pos := pos (snd (getc_l lx)) - 1\<rparr>))) < remaining lx"
    if "peekc lx = CHR ''='' \<or> peekc lx = CHR ''!''"
    using assms that remaining_getc_l_back [of lx] by auto
  have e: "remaining (snd (lex_string lx)) < remaining lx"
    using assms by (rule lex_string_remaining)
  show ?thesis
  proof (cases "isalpha (peekc lx) \<or> isdigit (peekc lx) \<or> peekc lx = CHR ''_'' \<or> peekc lx = CHR ''.''")
    case True
    then have d: "remaining (snd (lex_ident_or_number lx)) < remaining lx"
      using lex_ident_or_number_remaining [of lx] by (auto simp: isalnum_def)
    show ?thesis
    proof (cases "peekc lx = CHR ''\"''")
      case True
      then show ?thesis using assms e by (simp add: dispatch_def)
    next
      case False
      then show ?thesis
        using assms True d
        by (cases "isalpha (peekc lx) \<or> peekc lx = CHR ''_''")
           (auto simp add: dispatch_def Let_def split: prod.splits option.splits)
    qed
  next
    case False
    then show ?thesis
      using assms a b c e by (simp add: dispatch_def Let_def)
  qed
qed

lemma next_token_eq:
  "next_token lx =
     (case fst (skip_blank lx) of
        Some t \<Rightarrow> (t, snd (skip_blank lx))
      | None \<Rightarrow> dispatch (snd (skip_blank lx)))"
  by (simp add: next_token_def split: prod.splits option.splits)

lemma next_token_remaining:
  assumes "ttype (fst (next_token lx)) \<noteq> T_EOF"
  shows "remaining (snd (next_token lx)) < remaining lx"
proof (cases "fst (skip_blank lx)")
  case (Some t)
  then show ?thesis
    using skip_blank_Some [of lx t] by (simp add: next_token_eq)
next
  case None
  then have n: "next_token lx = dispatch (snd (skip_blank lx))"
    by (simp add: next_token_eq)
  then have "peekc (snd (skip_blank lx)) \<noteq> NUL"
    using assms dispatch_EOF by auto
  then show ?thesis
    using dispatch_remaining [of "snd (skip_blank lx)"] skip_blank_remaining_le [of lx] n by simp
qed

function token_stream :: "Lexer \<Rightarrow> Token list" where
  "token_stream lx =
     (if ttype (fst (next_token lx)) = T_EOF then [fst (next_token lx)]
      else fst (next_token lx) # token_stream (snd (next_token lx)))"
  by pat_completeness auto
termination
proof (relation "measure remaining")
  show "wf (measure remaining)" by simp
next
  fix lx
  assume "ttype (fst (next_token lx)) \<noteq> T_EOF"
  then have "remaining (snd (next_token lx)) < remaining lx"
    by (rule next_token_remaining)
  then show "(snd (next_token lx), lx) \<in> measure remaining"
    by simp
qed

declare token_stream.simps [simp del]


lemma token_stream_ne: "token_stream lx \<noteq> []"
  by (subst token_stream.simps) simp

lemma token_stream_last: "ttype (last (token_stream lx)) = T_EOF"
  by (induction lx rule: token_stream.induct)
     (subst token_stream.simps, simp add: token_stream_ne)

lemma token_stream_butlast:
  "filter (\<lambda>t. ttype t = T_EOF) (butlast (token_stream lx)) = []"
  by (induction lx rule: token_stream.induct)
     (subst token_stream.simps, simp add: token_stream_ne)


lemma token_stream_count:
  "length (filter (\<lambda>t. ttype t = T_EOF) (token_stream lx)) = 1"
proof -
  define ts where "ts = token_stream lx"
  have ne: "ts \<noteq> []" and l: "ttype (last ts) = T_EOF"
    and b: "filter (\<lambda>t. ttype t = T_EOF) (butlast ts) = []"
    by (simp_all add: ts_def token_stream_ne token_stream_last token_stream_butlast)
  have "filter (\<lambda>t. ttype t = T_EOF) (butlast ts @ [last ts]) = [last ts]"
    using l b by simp
  then have "filter (\<lambda>t. ttype t = T_EOF) ts = [last ts]"
    using ne append_butlast_last_id [of ts] by simp
  then show ?thesis
    by (simp add: ts_def)
qed


lemma token_stream_length: "length (token_stream lx) \<le> Suc (remaining lx)"
proof (induction lx rule: token_stream.induct)
  case (1 lx)
  show ?case
  proof (cases "ttype (fst (next_token lx)) = T_EOF")
    case True
    then show ?thesis by (subst token_stream.simps) simp
  next
    case False
    then have "length (token_stream (snd (next_token lx))) \<le> Suc (remaining (snd (next_token lx)))"
      using 1 by simp
    moreover have "remaining (snd (next_token lx)) < remaining lx"
      using False by (rule next_token_remaining)
    ultimately show ?thesis
      using False by (subst token_stream.simps) simp
  qed
qed

lemma lex_string_src [simp]: "src (snd (lex_string lx)) = src lx"
  by (simp add: lex_string_def Let_def)

lemma lex_ident_or_number_src [simp]: "src (snd (lex_ident_or_number lx)) = src lx"
  by (simp add: lex_ident_or_number_def Let_def)

lemma getc_l_back_src [simp]:
  "src (snd (getc_l (lx\<lparr>pos := n\<rparr>))) = src lx"
  by (simp add: getc_l_def Let_def)

lemma dispatch_src [simp]: "src (snd (dispatch lx)) = src lx"
  by (simp add: dispatch_def Let_def split_beta split: option.splits)

lemma next_token_src [simp]: "src (snd (next_token lx)) = src lx"
  by (simp add: next_token_eq split: option.splits)

lemma next_token_pos:
  "ttype (fst (next_token lx)) = T_EOF \<or> pos lx < pos (snd (next_token lx))"
proof (cases "ttype (fst (next_token lx)) = T_EOF")
  case True
  then show ?thesis by simp
next
  case False
  then have "length (src lx) - pos (snd (next_token lx)) < length (src lx) - pos lx"
    using next_token_remaining [of lx] by (simp add: remaining_def)
  then have "pos lx < pos (snd (next_token lx))"
    by arith
  then show ?thesis by simp
qed

lemma next_token_LF:
  assumes "peekc lx = LF"
  shows "next_token lx = (make_token T_NEWLINE None, lx\<lparr>pos := pos lx + 1, line := line lx + 1\<rparr>)"
proof -
  have "skip_blank lx = (Some (make_token T_NEWLINE None), snd (getc_l lx))"
    using assms by (subst skip_blank.simps) (simp add: Let_def)
  moreover have "snd (getc_l lx) = lx\<lparr>pos := pos lx + 1, line := line lx + 1\<rparr>"
    using assms by (simp add: getc_l_def Let_def)
  ultimately show ?thesis
    by (simp add: next_token_def)
qed

lemma next_token_CR:
  assumes "peekc lx = CR"
  shows "next_token lx =
     (make_token T_NEWLINE None,
      if peekc (lx\<lparr>pos := pos lx + 1\<rparr>) = LF then lx\<lparr>pos := pos lx + 2, line := line lx + 1\<rparr>
      else lx\<lparr>pos := pos lx + 1\<rparr>)"
proof -
  have g: "snd (getc_l lx) = lx\<lparr>pos := pos lx + 1\<rparr>"
    using assms by (simp add: getc_l_def Let_def)
  have "skip_blank lx = (Some (make_token T_NEWLINE None),
      if peekc (snd (getc_l lx)) = LF then snd (getc_l (snd (getc_l lx))) else snd (getc_l lx))"
    using assms by (subst skip_blank.simps) (simp add: Let_def)
  moreover have "peekc (lx\<lparr>pos := pos lx + 1\<rparr>) = LF \<Longrightarrow>
      snd (getc_l (lx\<lparr>pos := pos lx + 1\<rparr>)) = lx\<lparr>pos := pos lx + 2, line := line lx + 1\<rparr>"
    by (simp add: getc_l_def Let_def)
  ultimately show ?thesis
    using g by (simp add: next_token_def)
qed

text \<open>Blanks before a line ending, and a comment up to its line feed.\<close>

lemma getc_l_blank:
  assumes "peekc l = CHR '' '' \<or> peekc l = TAB"
  shows "snd (getc_l l) = l\<lparr>pos := pos l + 1\<rparr>"
  using assms by (auto simp add: getc_l_def Let_def)

lemma skip_blank_blanks:
  assumes "\<forall>i<n. peekc (l\<lparr>pos := pos l + i\<rparr>) = CHR '' '' \<or> peekc (l\<lparr>pos := pos l + i\<rparr>) = TAB"
  shows "skip_blank l = skip_blank (l\<lparr>pos := pos l + n\<rparr>)"
  using assms
proof (induction n arbitrary: l)
  case 0
  then show ?case by simp
next
  case (Suc n)
  have b: "peekc l = CHR '' '' \<or> peekc l = TAB"
    using Suc.prems [rule_format, of 0] by simp
  then have 1: "skip_blank l = skip_blank (l\<lparr>pos := pos l + 1\<rparr>)"
    using getc_l_blank [OF b] by (subst skip_blank.simps) (auto simp add: Let_def)
  have "\<forall>i<n. peekc (l\<lparr>pos := pos l + 1\<rparr>\<lparr>pos := pos (l\<lparr>pos := pos l + 1\<rparr>) + i\<rparr>) = CHR '' '' \<or>
      peekc (l\<lparr>pos := pos l + 1\<rparr>\<lparr>pos := pos (l\<lparr>pos := pos l + 1\<rparr>) + i\<rparr>) = TAB"
  proof (intro allI impI)
    fix i assume "i < n"
    then have "Suc i < Suc n" by simp
    from Suc.prems [rule_format, OF this] show "peekc (l\<lparr>pos := pos l + 1\<rparr>\<lparr>pos := pos (l\<lparr>pos := pos l + 1\<rparr>) + i\<rparr>) = CHR '' '' \<or>
      peekc (l\<lparr>pos := pos l + 1\<rparr>\<lparr>pos := pos (l\<lparr>pos := pos l + 1\<rparr>) + i\<rparr>) = TAB"
      by (simp add: add.commute add.left_commute)
  qed
  from Suc.IH [OF this] have "skip_blank (l\<lparr>pos := pos l + 1\<rparr>) = skip_blank (l\<lparr>pos := pos l + Suc n\<rparr>)"
    by (simp add: add.commute add.left_commute)
  then show ?case
    using 1 by simp
qed

lemma next_token_blanks:
  assumes "\<forall>i<n. peekc (l\<lparr>pos := pos l + i\<rparr>) = CHR '' '' \<or> peekc (l\<lparr>pos := pos l + i\<rparr>) = TAB"
  shows "next_token l = next_token (l\<lparr>pos := pos l + n\<rparr>)"
  using skip_blank_blanks [OF assms] by (simp add: next_token_def)

lemma skip_comment_line:
  assumes "\<forall>j<m. peekc (l\<lparr>pos := pos l + j\<rparr>) \<noteq> LF \<and> peekc (l\<lparr>pos := pos l + j\<rparr>) \<noteq> NUL"
    and "peekc (l\<lparr>pos := pos l + m\<rparr>) = LF"
  shows "skip_comment l = l\<lparr>pos := pos l + m + 1, line := line l + 1\<rparr>"
  using assms
proof (induction m arbitrary: l)
  case 0
  then have "peekc l = LF" by simp
  then show ?case
    by (subst skip_comment.simps) (simp add: getc_l_def Let_def)
next
  case (Suc m)
  have b: "peekc l \<noteq> LF \<and> peekc l \<noteq> NUL"
    using Suc.prems(1) [rule_format, of 0] by simp
  then have g: "snd (getc_l l) = l\<lparr>pos := pos l + 1\<rparr>"
    by (simp add: getc_l_def Let_def)
  have 1: "skip_comment l = skip_comment (l\<lparr>pos := pos l + 1\<rparr>)"
    using b g by (subst skip_comment.simps) simp
  have h: "\<forall>j<m. peekc (l\<lparr>pos := pos l + 1\<rparr>\<lparr>pos := pos (l\<lparr>pos := pos l + 1\<rparr>) + j\<rparr>) \<noteq> LF \<and>
      peekc (l\<lparr>pos := pos l + 1\<rparr>\<lparr>pos := pos (l\<lparr>pos := pos l + 1\<rparr>) + j\<rparr>) \<noteq> NUL"
  proof (intro allI impI)
    fix j assume "j < m"
    then have "Suc j < Suc m" by simp
    from Suc.prems(1) [rule_format, OF this]
    show "peekc (l\<lparr>pos := pos l + 1\<rparr>\<lparr>pos := pos (l\<lparr>pos := pos l + 1\<rparr>) + j\<rparr>) \<noteq> LF \<and>
      peekc (l\<lparr>pos := pos l + 1\<rparr>\<lparr>pos := pos (l\<lparr>pos := pos l + 1\<rparr>) + j\<rparr>) \<noteq> NUL"
      by (simp add: add.commute add.left_commute)
  qed
  have e: "peekc (l\<lparr>pos := pos l + 1\<rparr>\<lparr>pos := pos (l\<lparr>pos := pos l + 1\<rparr>) + m\<rparr>) = LF"
    using Suc.prems(2) by (simp add: add.commute add.left_commute)
  from Suc.IH [OF h e] show ?case
    using 1 by (simp add: add.commute add.left_commute)
qed

lemma next_token_comment:
  assumes "peekc l = CHR ''#''"
    and "\<forall>j<m. peekc (l\<lparr>pos := pos l + j\<rparr>) \<noteq> LF \<and> peekc (l\<lparr>pos := pos l + j\<rparr>) \<noteq> NUL"
    and "peekc (l\<lparr>pos := pos l + m\<rparr>) = LF"
  shows "next_token l = next_token (l\<lparr>pos := pos l + m + 1, line := line l + 1\<rparr>)"
proof -
  have "skip_blank l = skip_blank (skip_comment l)"
    using assms(1) by (subst skip_blank.simps) (simp add: Let_def)
  then show ?thesis
    using skip_comment_line [OF assms(2,3)] by (simp add: next_token_def)
qed

lemma dispatch_v1_EOF: "ttype (fst (dispatch_v1 lx)) = T_EOF \<longleftrightarrow> peekc lx = NUL"
  using lex_ident_or_number_not(2) [of lx]
  by (auto simp add: dispatch_v1_def Let_def split: prod.splits option.splits dest: keyword_v1_neq)

lemma skip_blank_Some_ttype: "fst (skip_blank lx) = Some t \<Longrightarrow> ttype t = T_NEWLINE"
  using skip_blank_Some [of lx t] by simp

lemma next_token_not_DOT: "ttype (fst (next_token lx)) \<noteq> T_DOT"
  using dispatch_not_DOT [of "snd (skip_blank lx)"] skip_blank_Some_ttype [of lx]
  by (auto simp add: next_token_eq split: option.splits)

lemma next_token_v1_not_DOT: "ttype (fst (next_token_v1 lx)) \<noteq> T_DOT"
  using dispatch_v1_not_DOT [of "snd (skip_blank lx)"] skip_blank_Some_ttype [of lx]
  by (auto simp add: next_token_v1_def split: prod.splits option.splits)

lemma token_stream_not_DOT: "T_DOT \<notin> ttype ` set (token_stream lx)"
proof (induction lx rule: token_stream.induct)
  case (1 lx)
  show ?case
  proof (cases "ttype (fst (next_token lx)) = T_EOF")
    case True
    then show ?thesis by (subst token_stream.simps) simp
  next
    case False
    then have "T_DOT \<notin> ttype ` set (token_stream (snd (next_token lx)))"
      using 1 by simp
    then show ?thesis
      using False next_token_not_DOT [of lx] by (subst token_stream.simps) simp
  qed
qed

lemma dispatch_dot:
  assumes "peekc lx = CHR ''.''"
  shows "dispatch lx = lex_ident_or_number lx" and "dispatch_v1 lx = lex_ident_or_number lx"
proof -
  have "\<not> isalpha (peekc lx)" and "peekc lx \<noteq> CHR ''_''" and "peekc lx \<noteq> NUL"
    and "peekc lx \<noteq> CHR ''\"''"
    using assms by (simp_all add: isalpha_def)
  then show "dispatch lx = lex_ident_or_number lx" and "dispatch_v1 lx = lex_ident_or_number lx"
    using assms by (simp_all add: dispatch_def dispatch_v1_def Let_def)
qed

text \<open>The lexer state \<^verbatim>\<open>main\<close> starts from.\<close>

definition lexer_init :: "string \<Rightarrow> Lexer" where
  "lexer_init s = \<lparr>src = s, pos = 0, line = 1\<rparr>"

section \<open>Numbers: the C type double\<close>

text \<open>
  A \<^verbatim>\<open>double\<close> is modelled by the value it denotes: a rational number (\<open>Fin\<close>), the
  negative zero, the two infinities, or NaN. Every arithmetic result is rounded to the
  nearest binary64 value, ties to even (\<open>round_double\<close>: 53 bits of mantissa, exponents
  from -1022 to 1023, subnormal numbers, overflow to an infinity), as IEEE 754 prescribes
  in the default rounding mode. The sign and payload of a NaN are not modelled.
\<close>

datatype double = Fin rat | NegZero | PosInf | NegInf | NaN

definition pow2 :: "int \<Rightarrow> rat" where
  "pow2 e = (if 0 \<le> e then 2 ^ nat e else 1 / 2 ^ nat (- e))"

function ndigits :: "int \<Rightarrow> int \<Rightarrow> int" where
  "ndigits b x = (if 0 < x \<and> 1 < b then ndigits b (x div b) + 1 else 0)"
  by pat_completeness auto
termination
proof (relation "measure (\<lambda>(b, x). nat x)")
  show "wf (measure (\<lambda>(b, x). nat x))" by simp
next
  fix b x :: int
  assume "0 < x \<and> 1 < b"
  then have "x div b < x"
    by (simp add: int_div_less_self)
  then show "((b, x div b), (b, x)) \<in> measure (\<lambda>(b, x). nat x)"
    using \<open>0 < x \<and> 1 < b\<close> by simp
qed

declare ndigits.simps [simp del]

definition ilog :: "int \<Rightarrow> rat \<Rightarrow> int" where
  "ilog b q = (let k = ndigits b (fst (quotient_of q)) - ndigits b (snd (quotient_of q))
               in if of_int b powi k \<le> q then k else k - 1)"

definition pow10 :: "int \<Rightarrow> rat" where "pow10 e = 10 powi e"
definition ilog2 :: "rat \<Rightarrow> int" where "ilog2 q = ilog 2 q"

definition round_half_even :: "rat \<Rightarrow> int" where
  "round_half_even x =
     (let f = \<lfloor>x\<rfloor>; d = x - of_int f
      in if d < 1 / 2 then f else if 1 / 2 < d then f + 1 else if even f then f else f + 1)"

definition round_double :: "rat \<Rightarrow> double" where
  "round_double q =
     (if q = 0 then Fin 0
      else let a = \<bar>q\<bar>;
               e = max (ilog2 a) (- 1022);
               m = round_half_even (a / pow2 (e - 52))
           in if 1023 < e \<or> (e = 1023 \<and> 2 ^ 53 \<le> m) then (if q < 0 then NegInf else PosInf)
              else if m = 0 then (if q < 0 then NegZero else Fin 0)
              else Fin ((if q < 0 then - 1 else 1) * of_int m * pow2 (e - 52)))"


subsection \<open>Arithmetic\<close>

definition is_nan :: "double \<Rightarrow> bool" where
  "is_nan x = (x = NaN)"

definition is_inf :: "double \<Rightarrow> bool" where
  "is_inf x = (x = PosInf \<or> x = NegInf)"

definition is_zero :: "double \<Rightarrow> bool" where
  "is_zero x = (x = Fin 0 \<or> x = NegZero)"

definition sign_bit :: "double \<Rightarrow> bool" where
  "sign_bit x = (case x of Fin q \<Rightarrow> q < 0 | NegZero \<Rightarrow> True | NegInf \<Rightarrow> True | _ \<Rightarrow> False)"

definition dval :: "double \<Rightarrow> rat" where
  "dval x = (case x of Fin q \<Rightarrow> q | _ \<Rightarrow> 0)"

definition signed_zero :: "bool \<Rightarrow> double" where
  "signed_zero neg = (if neg then NegZero else Fin 0)"

definition signed_inf :: "bool \<Rightarrow> double" where
  "signed_inf neg = (if neg then NegInf else PosInf)"

definition dneg :: "double \<Rightarrow> double" where
  "dneg x = (case x of Fin q \<Rightarrow> (if q = 0 then NegZero else Fin (- q))
             | NegZero \<Rightarrow> Fin 0 | PosInf \<Rightarrow> NegInf | NegInf \<Rightarrow> PosInf | NaN \<Rightarrow> NaN)"

definition dadd :: "double \<Rightarrow> double \<Rightarrow> double" where
  "dadd x y =
     (if is_nan x \<or> is_nan y then NaN
      else if is_inf x then (if is_inf y \<and> x \<noteq> y then NaN else x)
      else if is_inf y then y
      else if dval x + dval y = 0 then signed_zero (sign_bit x \<and> sign_bit y)
      else round_double (dval x + dval y))"

definition dsub :: "double \<Rightarrow> double \<Rightarrow> double" where
  "dsub x y = dadd x (dneg y)"

definition dmul :: "double \<Rightarrow> double \<Rightarrow> double" where
  "dmul x y =
     (if is_nan x \<or> is_nan y then NaN
      else if is_inf x \<or> is_inf y
           then (if is_zero x \<or> is_zero y then NaN else signed_inf (sign_bit x \<noteq> sign_bit y))
      else if dval x * dval y = 0 then signed_zero (sign_bit x \<noteq> sign_bit y)
      else round_double (dval x * dval y))"

definition ddiv :: "double \<Rightarrow> double \<Rightarrow> double" where
  "ddiv x y =
     (if is_nan x \<or> is_nan y then NaN
      else if is_inf x then (if is_inf y then NaN else signed_inf (sign_bit x \<noteq> sign_bit y))
      else if is_inf y then signed_zero (sign_bit x \<noteq> sign_bit y)
      else if is_zero y then (if is_zero x then NaN else signed_inf (sign_bit x \<noteq> sign_bit y))
      else if is_zero x then signed_zero (sign_bit x \<noteq> sign_bit y)
      else round_double (dval x / dval y))"

definition trunc :: "rat \<Rightarrow> int" where
  "trunc q = (if 0 \<le> q then \<lfloor>q\<rfloor> else - \<lfloor>- q\<rfloor>)"

definition fmod :: "double \<Rightarrow> double \<Rightarrow> double" where
  "fmod x y =
     (if is_nan x \<or> is_nan y \<or> is_inf x \<or> is_zero y then NaN
      else if is_inf y \<or> is_zero x then x
      else let r = dval x - of_int (trunc (dval x / dval y)) * dval y
           in if r = 0 then signed_zero (sign_bit x) else Fin r)"

definition deq :: "double \<Rightarrow> double \<Rightarrow> bool" where
  "deq x y = (\<not> is_nan x \<and> \<not> is_nan y \<and>
              (if is_inf x \<or> is_inf y then x = y else dval x = dval y))"

definition dlt :: "double \<Rightarrow> double \<Rightarrow> bool" where
  "dlt x y = (\<not> is_nan x \<and> \<not> is_nan y \<and>
              (if x = NegInf then y \<noteq> NegInf
               else if y = PosInf then x \<noteq> PosInf
               else if x = PosInf \<or> y = NegInf then False
               else dval x < dval y))"

definition dle :: "double \<Rightarrow> double \<Rightarrow> bool" where
  "dle x y = (dlt x y \<or> deq x y)"

subsection \<open>printf with %g\<close>

fun dec :: "nat \<Rightarrow> int \<Rightarrow> string" where
  "dec 0 n = []"
| "dec (Suc k) n = dec k (n div 10) @ [char_of (48 + n mod 10)]"

definition strip_zeros :: "string \<Rightarrow> string" where
  "strip_zeros s =
     (let t = rev (dropWhile (\<lambda>c. c = CHR ''0'') (rev s))
      in if t \<noteq> [] \<and> last t = CHR ''.'' then butlast t else t)"

definition fmt_g_pos :: "rat \<Rightarrow> string" where
  "fmt_g_pos a =
     (let x0 = ilog 10 a;
          m0 = round_half_even (a / pow10 (x0 - 5));
          m = (if 1000000 \<le> m0 then m0 div 10 else m0);
          x = (if 1000000 \<le> m0 then x0 + 1 else x0);
          ds = dec 6 m
      in if x < - 4 \<or> 6 \<le> x
         then strip_zeros (take 1 ds @ ''.'' @ drop 1 ds) @ ''e'' @ (if x < 0 then ''-'' else ''+'')
              @ (if \<bar>x\<bar> < 100 then dec 2 \<bar>x\<bar> else dec 3 \<bar>x\<bar>)
         else if 0 \<le> x then strip_zeros (take (nat x + 1) ds @ ''.'' @ drop (nat x + 1) ds)
         else strip_zeros (''0.'' @ replicate (nat (- x - 1)) CHR ''0'' @ ds))"

text \<open>
  \<^verbatim>\<open>printf\<close> writes a NaN as \<^verbatim>\<open>nan\<close> or \<^verbatim>\<open>-nan\<close>, by its sign bit. IEEE 754 leaves the
  sign of the NaN that an invalid operation returns to the processor (it is set on x86-64,
  so that glibc prints \<^verbatim>\<open>-nan\<close> there for \<^verbatim>\<open>fmod(1, 0)\<close>, and clear on other machines);
  the model has one NaN and \<open>fmt_g\<close> writes it \<^verbatim>\<open>nan\<close>.
\<close>

definition fmt_g :: "double \<Rightarrow> string" where
  "fmt_g d =
     (case d of
        NaN \<Rightarrow> ''nan''
      | PosInf \<Rightarrow> ''inf''
      | NegInf \<Rightarrow> ''-inf''
      | NegZero \<Rightarrow> ''-0''
      | Fin q \<Rightarrow> if q = 0 then ''0'' else (if q < 0 then ''-'' else []) @ fmt_g_pos \<bar>q\<bar>)"

subsection \<open>atof\<close>

fun dec_val :: "string \<Rightarrow> int \<Rightarrow> int" where
  "dec_val [] acc = acc"
| "dec_val (c # cs) acc = dec_val cs (10 * acc + (of_char c - 48))"

definition atof :: "string \<Rightarrow> double" where
  "atof s =
     (let ip = takeWhile isdigit s;
          rest = dropWhile isdigit s;
          fp = (case rest of [] \<Rightarrow> [] | c # r \<Rightarrow> if c = CHR ''.'' then takeWhile isdigit r else [])
      in if ip = [] \<and> fp = [] then Fin 0
         else round_double (of_int (dec_val (ip @ fp) 0) / 10 ^ length fp))"

section \<open>Values, the syntax tree and the environment\<close>

text \<open>
  In this section and the next two a value is its content: values are copied, never shared,
  \<^verbatim>\<open>malloc\<close>, \<^verbatim>\<open>strdup\<close>, \<^verbatim>\<open>value_dup\<close> and \<^verbatim>\<open>value_free\<close> do not appear, and a
  string is the list of its characters. That is the interpreter as long as no block is read
  or freed after it has been freed. The section on the heap embeds the evaluator again with
  the pointers and blocks of the C code, and shows where the code uses a freed block.
\<close>

datatype ValueType = VAL_NUM | VAL_STR | VAL_NONE

record Value =
  vtype :: ValueType
  num :: double
  str :: "string option"

definition num_value :: "double \<Rightarrow> Value" where
  "num_value d = \<lparr>vtype = VAL_NUM, num = d, str = None\<rparr>"

definition str_value :: "string \<Rightarrow> Value" where
  "str_value s = \<lparr>vtype = VAL_STR, num = Fin 0, str = Some s\<rparr>"

definition none_value :: "Value" where
  "none_value = \<lparr>vtype = VAL_NONE, num = Fin 0, str = None\<rparr>"

text \<open>
  The C struct \<^verbatim>\<open>Node\<close> has one constructor per \<^verbatim>\<open>NodeType\<close>, holding the fields
  that the parser sets for that type. A statement list holds the chain of its statements
  (\<^verbatim>\<open>body\<close>, then \<^verbatim>\<open>next\<close>); \<open>None\<close> is a null \<^verbatim>\<open>else_body\<close> or a \<^verbatim>\<open>return\<close>
  without expression; the operator of a binary node (\<^verbatim>\<open>number\<close>) is its token type.
\<close>

datatype Node =
    N_STMT_LIST "Node list"
  | N_STMT_SET string Node
  | N_STMT_PRINT Node
  | N_STMT_READ string
  | N_STMT_IF Node Node "Node option"
  | N_STMT_WHILE Node Node
  | N_STMT_FUNCDEF string "string list" Node
  | N_STMT_RETURN "Node option"
  | N_EXPR_BINARY TokenType Node Node
  | N_EXPR_NUMBER double
  | N_EXPR_STRING string
  | N_EXPR_VAR string
  | N_EXPR_CALL string "Node list"

record FuncDef =
  fname :: string
  params :: "string list"
  body :: Node

text \<open>
  A scope is its list of variables, the newest first, as the linked list \<^verbatim>\<open>vars\<close>. The
  scope stack is the list of scopes from \<^verbatim>\<open>current_scope\<close> along the \<^verbatim>\<open>parent\<close>
  pointers; \<^verbatim>\<open>global_scope\<close>, the scope pushed first, is its last element.
\<close>

type_synonym Scope = "(string \<times> Value) list"

definition push_scope :: "Scope list \<Rightarrow> Scope list" where
  "push_scope ss = [] # ss"

definition pop_scope :: "Scope list \<Rightarrow> Scope list" where
  "pop_scope ss = (case ss of [] \<Rightarrow> [] | s # rest \<Rightarrow> rest)"

text \<open>The inner loop of \<^verbatim>\<open>var_get\<close> and \<^verbatim>\<open>var_set\<close>: the first variable of that name.\<close>

fun find_var :: "string \<Rightarrow> Scope \<Rightarrow> Value option" where
  "find_var name [] = None"
| "find_var name ((n, v) # vs) = (if n = name then Some v else find_var name vs)"

text \<open>The outer loop of \<^verbatim>\<open>var_get\<close>, from the current scope along the parents.\<close>

fun find_chain :: "string \<Rightarrow> Scope list \<Rightarrow> Value option" where
  "find_chain name [] = None"
| "find_chain name (s # ss) =
     (case find_var name s of Some v \<Rightarrow> Some v | None \<Rightarrow> find_chain name ss)"

definition var_get :: "string \<Rightarrow> Scope list \<Rightarrow> Value option" where
  "var_get name ss =
     (case find_chain name ss of
        Some v \<Rightarrow> Some v
      | None \<Rightarrow> if ss \<noteq> [] \<and> length ss \<noteq> 1 then find_var name (last ss) else None)"

text \<open>Overwriting the first variable of that name in place.\<close>

fun overwrite :: "string \<Rightarrow> Value \<Rightarrow> Scope \<Rightarrow> Scope" where
  "overwrite name val [] = []"
| "overwrite name val ((n, v) # vs) =
     (if n = name then (n, val) # vs else (n, v) # overwrite name val vs)"

text \<open>
  \<^verbatim>\<open>var_set\<close> looks at the current scope only. With no scope at all the C code would
  follow \<^verbatim>\<open>global_scope\<close>, a null or dangling pointer; \<^verbatim>\<open>main\<close> pushes the global scope
  before it evaluates anything, so the case does not arise and the model leaves the empty
  stack as it is.
\<close>

definition var_set :: "string \<Rightarrow> Value \<Rightarrow> Scope list \<Rightarrow> Scope list" where
  "var_set name val ss =
     (case ss of
        [] \<Rightarrow> []
      | s # rest \<Rightarrow>
          (case find_var name s of
             Some v \<Rightarrow> overwrite name val s # rest
           | None \<Rightarrow> ((name, val) # s) # rest))"

fun func_get :: "string \<Rightarrow> FuncDef list \<Rightarrow> FuncDef option" where
  "func_get name [] = None"
| "func_get name (f # fs) = (if fname f = name then Some f else func_get name fs)"

datatype error =
    Undefined_variable string
  | Undefined_function string
  | Arity_mismatch string nat nat
  | Condition_not_numeric
  | Non_numeric_operand
  | Division_by_zero
  | Function_already_defined string
  | Input_error
  | Parse_error int string
  | Null_pointer
  | Use_after_free
  | Double_free
  | Array_overflow

definition func_set :: "string \<Rightarrow> string list \<Rightarrow> Node \<Rightarrow> FuncDef list \<Rightarrow> error + FuncDef list" where
  "func_set name ps b fs =
     (case func_get name fs of
        Some f \<Rightarrow> Inl (Function_already_defined name)
      | None \<Rightarrow> Inr (fs @ [\<lparr>fname = name, params = ps, body = b\<rparr>]))"

text \<open>
  The state of the interpreter: the scope stack, the function table, what has been written
  to the standard output, and the lines still to be read from the standard input. An input
  line is what \<^verbatim>\<open>fgets\<close> returns without its line feed, with the number \<^verbatim>\<open>strtod\<close>
  converts the whole line to, if it does (\<^verbatim>\<open>strtod\<close> is the C library's, not the
  repository's).
\<close>

record State =
  scopes :: "Scope list"
  func_table :: "FuncDef list"
  stdout :: string
  stdin :: "(string \<times> double option) list"

type_synonym 'a result = "(error \<times> State) + 'a"

section \<open>Evaluation\<close>

text \<open>
  The binary operators of \<^verbatim>\<open>eval_expr\<close>, on the values of the two operands. The error
  is the \<^verbatim>\<open>exit(1)\<close> of the source.
\<close>

definition eval_binary :: "TokenType \<Rightarrow> Value \<Rightarrow> Value \<Rightarrow> error + Value" where
  "eval_binary op l r =
     (if op = T_PLUS \<and> (vtype l = VAL_STR \<or> vtype r = VAL_STR)
      then (let lstr = (if vtype l = VAL_STR then (case str l of Some s \<Rightarrow> s | None \<Rightarrow> [])
                        else fmt_g (num l));
                rstr = (if vtype r = VAL_STR then (case str r of Some s \<Rightarrow> s | None \<Rightarrow> [])
                        else fmt_g (num r))
            in Inr (str_value (lstr @ rstr)))
      else if vtype l \<noteq> VAL_NUM \<or> vtype r \<noteq> VAL_NUM then Inl Non_numeric_operand
      else (case op of
              T_PLUS \<Rightarrow> Inr (num_value (dadd (num l) (num r)))
            | T_MINUS \<Rightarrow> Inr (num_value (dsub (num l) (num r)))
            | T_MUL \<Rightarrow> Inr (num_value (dmul (num l) (num r)))
            | T_DIV \<Rightarrow> if deq (num r) (Fin 0) then Inl Division_by_zero
                       else Inr (num_value (ddiv (num l) (num r)))
            | T_MOD \<Rightarrow> Inr (num_value (fmod (num l) (num r)))
            | T_EQ \<Rightarrow> Inr (num_value (if deq (num l) (num r) then Fin 1 else Fin 0))
            | T_NEQ \<Rightarrow> Inr (num_value (if \<not> deq (num l) (num r) then Fin 1 else Fin 0))
            | T_GT \<Rightarrow> Inr (num_value (if dlt (num r) (num l) then Fin 1 else Fin 0))
            | T_LT \<Rightarrow> Inr (num_value (if dlt (num l) (num r) then Fin 1 else Fin 0))
            | T_LE \<Rightarrow> Inr (num_value (if dle (num l) (num r) then Fin 1 else Fin 0))
            | T_GE \<Rightarrow> Inr (num_value (if dle (num r) (num l) then Fin 1 else Fin 0))
            | T_AND \<Rightarrow> Inr (num_value (if \<not> deq (num l) (Fin 0) \<and> \<not> deq (num r) (Fin 0)
                                          then Fin 1 else Fin 0))
            | _ \<Rightarrow> Inr none_value))"

text \<open>
  The loop of the call that binds the parameters in the new scope. The \<^verbatim>\<open>value_free\<close>
  that follows each \<^verbatim>\<open>var_set\<close> in the C code acts on the heap only: it is in
  \<open>bind_params_h\<close>.
\<close>

fun bind_params :: "string list \<Rightarrow> Value list \<Rightarrow> Scope list \<Rightarrow> Scope list" where
  "bind_params (p # ps) (v # vs) ss = bind_params ps vs (var_set p v ss)"
| "bind_params ps vs ss = ss"

definition print_value :: "Value \<Rightarrow> string" where
  "print_value v =
     (if vtype v = VAL_NUM then fmt_g (num v) @ [LF]
      else if vtype v = VAL_STR then (case str v of Some s \<Rightarrow> s | None \<Rightarrow> []) @ [LF]
      else [])"

text \<open>
  \<open>eval_stmt\<close> and \<open>eval_expr\<close> with fuel: a program may loop or recurse for ever, so every
  call takes a bound on the depth of the calls below it, and \<open>None\<close> says that the bound
  was too small. \<open>Some (Inl (e, st))\<close> is the \<^verbatim>\<open>exit(1)\<close> with diagnostic \<open>e\<close> in state
  \<open>st\<close>. The pair \<open>fr = (returned, return_val)\<close> holds the two out-parameters of
  \<^verbatim>\<open>eval_stmt\<close>.
  \<open>eval_list\<close> is the loop of \<^verbatim>\<open>N_STMT_LIST\<close> with its variable \<^verbatim>\<open>last_result\<close>,
  \<open>eval_while\<close> the loop of \<^verbatim>\<open>N_STMT_WHILE\<close> with its variable \<^verbatim>\<open>res\<close>, and
  \<open>eval_args\<close> the loop of the call that evaluates the arguments. The calls of
  \<^verbatim>\<open>value_dup\<close> and \<^verbatim>\<open>value_free\<close>, which copy and free heap blocks and leave the
  content of a value as it is, are in \<open>eval_stmt_h\<close>, \<open>eval_list_h\<close>, \<open>eval_while_h\<close> and
  \<open>eval_expr_h\<close>.
\<close>

function (sequential) eval_stmt :: "nat \<Rightarrow> Node \<Rightarrow> bool \<times> Value \<Rightarrow> State \<Rightarrow> (Value \<times> (bool \<times> Value) \<times> State) result option"
  and eval_list :: "nat \<Rightarrow> Node list \<Rightarrow> Value \<Rightarrow> bool \<times> Value \<Rightarrow> State \<Rightarrow> (Value \<times> (bool \<times> Value) \<times> State) result option"
  and eval_while :: "nat \<Rightarrow> Node \<Rightarrow> Node \<Rightarrow> Value \<Rightarrow> bool \<times> Value \<Rightarrow> State \<Rightarrow> (Value \<times> (bool \<times> Value) \<times> State) result option"
  and eval_expr :: "nat \<Rightarrow> Node \<Rightarrow> State \<Rightarrow> (Value \<times> State) result option"
  and eval_args :: "nat \<Rightarrow> Node list \<Rightarrow> State \<Rightarrow> (Value list \<times> State) result option"
where
  "eval_stmt 0 n fr st = None"
| "eval_stmt (Suc k) n fr st =
     (if fst fr then Some (Inr (snd fr, fr, st))
      else case n of
        N_STMT_LIST cs \<Rightarrow> eval_list k cs none_value fr st
      | N_STMT_SET name e \<Rightarrow>
          (case eval_expr k e st of
             None \<Rightarrow> None
           | Some (Inl err) \<Rightarrow> Some (Inl err)
           | Some (Inr (v, st1)) \<Rightarrow>
               Some (Inr (v, fr, st1\<lparr>scopes := var_set name v (scopes st1)\<rparr>)))
      | N_STMT_PRINT e \<Rightarrow>
          (case eval_expr k e st of
             None \<Rightarrow> None
           | Some (Inl err) \<Rightarrow> Some (Inl err)
           | Some (Inr (v, st1)) \<Rightarrow>
               Some (Inr (none_value, fr, st1\<lparr>stdout := stdout st1 @ print_value v\<rparr>)))
      | N_STMT_READ name \<Rightarrow>
          (case stdin st of
             [] \<Rightarrow> Some (Inl (Input_error, st))
           | (buf, conv) # rest \<Rightarrow>
               (case conv of
                  None \<Rightarrow>
                    Some (Inr (str_value buf, fr,
                               st\<lparr>scopes := var_set name (str_value buf) (scopes st), stdin := rest\<rparr>))
                | Some val \<Rightarrow>
                    Some (Inr (num_value val, fr,
                               st\<lparr>scopes := var_set name (num_value val) (scopes st), stdin := rest\<rparr>))))
      | N_STMT_IF c b else_body \<Rightarrow>
          (case eval_expr k c st of
             None \<Rightarrow> None
           | Some (Inl err) \<Rightarrow> Some (Inl err)
           | Some (Inr (condv, st1)) \<Rightarrow>
               if vtype condv \<noteq> VAL_NUM then Some (Inl (Condition_not_numeric, st1))
               else if \<not> deq (num condv) (Fin 0) then eval_stmt k b fr st1
               else (case else_body of
                       Some e \<Rightarrow> eval_stmt k e fr st1
                     | None \<Rightarrow> Some (Inr (none_value, fr, st1))))
      | N_STMT_WHILE c b \<Rightarrow> eval_while k c b none_value fr st
      | N_STMT_FUNCDEF name ps b \<Rightarrow>
          (case func_set name ps b (func_table st) of
             Inl err \<Rightarrow> Some (Inl (err, st))
           | Inr fs \<Rightarrow> Some (Inr (none_value, fr, st\<lparr>func_table := fs\<rparr>)))
      | N_STMT_RETURN e \<Rightarrow>
          (case e of
             None \<Rightarrow> Some (Inr (num_value (Fin 0), (True, num_value (Fin 0)), st))
           | Some e1 \<Rightarrow>
               (case eval_expr k e1 st of
                  None \<Rightarrow> None
                | Some (Inl err) \<Rightarrow> Some (Inl err)
                | Some (Inr (ret_val, st1)) \<Rightarrow> Some (Inr (ret_val, (True, ret_val), st1))))
      | _ \<Rightarrow> Some (Inr (none_value, fr, st)))"

| "eval_list 0 cs last_result fr st = None"
| "eval_list (Suc k) cs last_result fr st =
     (case cs of
        [] \<Rightarrow> Some (Inr (last_result, fr, st))
      | c # rest \<Rightarrow>
          (case eval_stmt k c fr st of
             None \<Rightarrow> None
           | Some (Inl err) \<Rightarrow> Some (Inl err)
           | Some (Inr (v, fr1, st1)) \<Rightarrow>
               if fst fr1 then Some (Inr (snd fr1, fr1, st1))
               else eval_list k rest v fr1 st1))"

| "eval_while 0 c b res fr st = None"
| "eval_while (Suc k) c b res fr st =
     (case eval_expr k c st of
        None \<Rightarrow> None
      | Some (Inl err) \<Rightarrow> Some (Inl err)
      | Some (Inr (condv, st1)) \<Rightarrow>
          if vtype condv \<noteq> VAL_NUM \<or> deq (num condv) (Fin 0) \<or> fst fr
          then Some (Inr (res, fr, st1))
          else (case eval_stmt k b fr st1 of
                  None \<Rightarrow> None
                | Some (Inl err) \<Rightarrow> Some (Inl err)
                | Some (Inr (v, fr1, st2)) \<Rightarrow>
                    if fst fr1 then Some (Inr (snd fr1, fr1, st2))
                    else eval_while k c b v fr1 st2))"

| "eval_expr 0 n st = None"
| "eval_expr (Suc k) n st =
     (case n of
        N_EXPR_NUMBER d \<Rightarrow> Some (Inr (num_value d, st))
      | N_EXPR_STRING s \<Rightarrow> Some (Inr (str_value s, st))
      | N_EXPR_VAR name \<Rightarrow>
          (case var_get name (scopes st) of
             None \<Rightarrow> Some (Inl (Undefined_variable name, st))
           | Some v \<Rightarrow> Some (Inr (v, st)))
      | N_EXPR_CALL name args \<Rightarrow>
          (case func_get name (func_table st) of
             None \<Rightarrow> Some (Inl (Undefined_function name, st))
           | Some f \<Rightarrow>
               if length (params f) \<noteq> length args
               then Some (Inl (Arity_mismatch name (length (params f)) (length args), st))
               else (case eval_args k args st of
                       None \<Rightarrow> None
                     | Some (Inl err) \<Rightarrow> Some (Inl err)
                     | Some (Inr (arg_values, st1)) \<Rightarrow>
                         (case eval_stmt k (body f) (False, none_value)
                                 (st1\<lparr>scopes := bind_params (params f) arg_values (push_scope (scopes st1))\<rparr>) of
                            None \<Rightarrow> None
                          | Some (Inl err) \<Rightarrow> Some (Inl err)
                          | Some (Inr (func_result, fr, st2)) \<Rightarrow>
                              Some (Inr (if fst fr then snd fr else func_result,
                                         st2\<lparr>scopes := pop_scope (scopes st2)\<rparr>)))))
      | N_EXPR_BINARY op l r \<Rightarrow>
          (case eval_expr k l st of
             None \<Rightarrow> None
           | Some (Inl err) \<Rightarrow> Some (Inl err)
           | Some (Inr (lv, st1)) \<Rightarrow>
               (case eval_expr k r st1 of
                  None \<Rightarrow> None
                | Some (Inl err) \<Rightarrow> Some (Inl err)
                | Some (Inr (rv, st2)) \<Rightarrow>
                    (case eval_binary op lv rv of
                       Inl e \<Rightarrow> Some (Inl (e, st2))
                     | Inr v \<Rightarrow> Some (Inr (v, st2)))))
      | _ \<Rightarrow> Some (Inr (none_value, st)))"

| "eval_args 0 args st = None"
| "eval_args (Suc k) args st =
     (case args of
        [] \<Rightarrow> Some (Inr ([], st))
      | a # rest \<Rightarrow>
          (case eval_expr k a st of
             None \<Rightarrow> None
           | Some (Inl err) \<Rightarrow> Some (Inl err)
           | Some (Inr (v, st1)) \<Rightarrow>
               (case eval_args k rest st1 of
                  None \<Rightarrow> None
                | Some (Inl err) \<Rightarrow> Some (Inl err)
                | Some (Inr (vs, st2)) \<Rightarrow> Some (Inr (v # vs, st2)))))"
  by pat_completeness auto
termination
  by (relation "measure (case_sum (case_sum fst fst) (case_sum fst (case_sum fst fst)))") simp_all

declare eval_stmt.simps [simp del] eval_list.simps [simp del] eval_while.simps [simp del]
  eval_expr.simps [simp del] eval_args.simps [simp del]

section \<open>Properties of the evaluator\<close>

subsection \<open>Expressions leave the scope stack as it is; statements touch the current scope only\<close>

text \<open>
  \<open>same_below ss ss'\<close>: the stacks \<open>ss\<close> and \<open>ss'\<close> differ at most in their current scope.
  \<open>call_entry\<close> is the state in which a call starts the body of the function (the scope
  pushed, the parameters bound), \<open>call_exit\<close> the state after \<^verbatim>\<open>pop_scope\<close>.
\<close>

definition same_below :: "Scope list \<Rightarrow> Scope list \<Rightarrow> bool" where
  "same_below ss ss' = (tl ss' = tl ss \<and> (ss' = [] \<longleftrightarrow> ss = []))"

lemma same_below_refl [simp]: "same_below ss ss"
  by (simp add: same_below_def)

lemma same_below_trans: "same_below a b \<Longrightarrow> same_below b c \<Longrightarrow> same_below a c"
  by (simp add: same_below_def)

lemma same_below_var_set [simp]: "same_below ss (var_set name v ss)"
  by (cases ss) (simp_all add: same_below_def var_set_def split: option.splits)

lemma same_below_var_set': "same_below a b \<Longrightarrow> same_below a (var_set name v b)"
  using same_below_trans same_below_var_set by blast

lemma same_below_bind_params: "same_below ss (bind_params ps vs ss)"
proof (induction ps vs ss rule: bind_params.induct)
  case (1 p ps v vs ss)
  then show ?case
    using same_below_trans [OF same_below_var_set [of ss p v]] by simp
qed simp_all

lemma pop_same_below_push:
  "same_below (push_scope ss) ss' \<Longrightarrow> pop_scope ss' = ss"
  by (cases ss') (simp_all add: same_below_def push_scope_def pop_scope_def)

definition P_stmt :: "nat \<Rightarrow> bool" where
  "P_stmt k = (\<forall>n fr st v fr' st'.
     eval_stmt k n fr st = Some (Inr (v, fr', st')) \<longrightarrow> same_below (scopes st) (scopes st'))"

definition P_list :: "nat \<Rightarrow> bool" where
  "P_list k = (\<forall>cs l fr st v fr' st'.
     eval_list k cs l fr st = Some (Inr (v, fr', st')) \<longrightarrow> same_below (scopes st) (scopes st'))"

definition P_while :: "nat \<Rightarrow> bool" where
  "P_while k = (\<forall>c b r fr st v fr' st'.
     eval_while k c b r fr st = Some (Inr (v, fr', st')) \<longrightarrow> same_below (scopes st) (scopes st'))"

definition P_expr :: "nat \<Rightarrow> bool" where
  "P_expr k = (\<forall>n st v st'.
     eval_expr k n st = Some (Inr (v, st')) \<longrightarrow> scopes st' = scopes st)"

definition P_args :: "nat \<Rightarrow> bool" where
  "P_args k = (\<forall>as st vs st'.
     eval_args k as st = Some (Inr (vs, st')) \<longrightarrow> scopes st' = scopes st)"

definition call_entry :: "FuncDef \<Rightarrow> Value list \<Rightarrow> State \<Rightarrow> State" where
  "call_entry f vs st = st\<lparr>scopes := bind_params (params f) vs (push_scope (scopes st))\<rparr>"

definition call_exit :: "State \<Rightarrow> State" where
  "call_exit st = st\<lparr>scopes := pop_scope (scopes st)\<rparr>"

lemma eval_expr_call_Inr:
  assumes "eval_expr (Suc k) (N_EXPR_CALL name args) st = Some (Inr (v, st'))"
  shows "\<exists>f vs st1 r fr st2.
      func_get name (func_table st) = Some f \<and> length (params f) = length args \<and>
      eval_args k args st = Some (Inr (vs, st1)) \<and>
      eval_stmt k (body f) (False, none_value) (call_entry f vs st1) = Some (Inr (r, fr, st2)) \<and>
      v = (if fst fr then snd fr else r) \<and> st' = call_exit st2"
  using assms unfolding call_entry_def call_exit_def
  by (fastforce simp add: eval_expr.simps split: option.splits sum.splits if_splits)

lemma eval_expr_binary_Inr:
  assumes "eval_expr (Suc k) (N_EXPR_BINARY op l r) st = Some (Inr (v, st'))"
  shows "\<exists>lv st1 rv.
      eval_expr k l st = Some (Inr (lv, st1)) \<and> eval_expr k r st1 = Some (Inr (rv, st')) \<and>
      eval_binary op lv rv = Inr v"
  using assms
  by (simp add: eval_expr.simps split: option.splits sum.splits if_splits prod.splits)

lemma eval_args_Cons_Inr:
  assumes "eval_args (Suc k) (a # rest) st = Some (Inr (vs, st'))"
  shows "\<exists>v st1 vs'.
      eval_expr k a st = Some (Inr (v, st1)) \<and> eval_args k rest st1 = Some (Inr (vs', st')) \<and>
      vs = v # vs'"
  using assms
  by (simp add: eval_args.simps split: option.splits sum.splits if_splits prod.splits)

lemma eval_expr_other_Inr:
  assumes "eval_expr (Suc k) n st = Some (Inr (v, st'))"
    and "\<And>name args. n \<noteq> N_EXPR_CALL name args" and "\<And>op l r. n \<noteq> N_EXPR_BINARY op l r"
  shows "st' = st"
  using assms by (cases n) (auto simp add: eval_expr.simps split: option.splits)

lemma P_expr_Suc:
  assumes "P_expr k" "P_args k" "P_stmt k"
  shows "P_expr (Suc k)"
  unfolding P_expr_def
proof (intro allI impI)
  fix n st v st'
  assume e: "eval_expr (Suc k) n st = Some (Inr (v, st'))"
  show "scopes st' = scopes st"
  proof (cases n)
    case (N_EXPR_CALL name args)
    from eval_expr_call_Inr [OF e [unfolded N_EXPR_CALL]] obtain f vs st1 r fr st2 where
      a: "eval_args k args st = Some (Inr (vs, st1))" and
      b: "eval_stmt k (body f) (False, none_value) (call_entry f vs st1) = Some (Inr (r, fr, st2))" and
      c: "st' = call_exit st2"
      by blast
    have s1: "scopes st1 = scopes st"
      using a assms(2) by (auto simp: P_args_def)
    have "same_below (scopes (call_entry f vs st1)) (scopes st2)"
      using b assms(3) unfolding P_stmt_def by blast
    then have "same_below (bind_params (params f) vs (push_scope (scopes st1))) (scopes st2)"
      by (simp add: call_entry_def)
    then have "same_below (push_scope (scopes st1)) (scopes st2)"
      using same_below_bind_params same_below_trans by blast
    then show ?thesis
      using c s1 by (simp add: pop_same_below_push call_exit_def)
  next
    case (N_EXPR_BINARY op l r)
    from eval_expr_binary_Inr [OF e [unfolded N_EXPR_BINARY]] obtain lv st1 rv where
      a: "eval_expr k l st = Some (Inr (lv, st1))" and
      b: "eval_expr k r st1 = Some (Inr (rv, st'))"
      by blast
    then show ?thesis
      using assms(1) by (auto simp: P_expr_def)
  qed (use eval_expr_other_Inr [OF e] in auto)
qed

lemma P_args_Suc:
  assumes "P_expr k" "P_args k"
  shows "P_args (Suc k)"
  unfolding P_args_def
proof (intro allI impI)
  fix as st vs st'
  assume e: "eval_args (Suc k) as st = Some (Inr (vs, st'))"
  show "scopes st' = scopes st"
  proof (cases as)
    case Nil
    then show ?thesis using e by (simp add: eval_args.simps)
  next
    case (Cons a rest)
    from eval_args_Cons_Inr [OF e [unfolded Cons]] obtain v st1 vs' where
      "eval_expr k a st = Some (Inr (v, st1))" "eval_args k rest st1 = Some (Inr (vs', st'))"
      by blast
    then show ?thesis
      using assms by (auto simp: P_expr_def P_args_def)
  qed
qed

lemma P_exprD: "P_expr k \<Longrightarrow> eval_expr k n st = Some (Inr (v, st')) \<Longrightarrow> scopes st' = scopes st"
  unfolding P_expr_def by blast

lemma P_stmtD:
  "P_stmt k \<Longrightarrow> eval_stmt k n fr st = Some (Inr (v, fr', st')) \<Longrightarrow> same_below (scopes st) (scopes st')"
  unfolding P_stmt_def by blast

lemma P_listD:
  "P_list k \<Longrightarrow> eval_list k cs l fr st = Some (Inr (v, fr', st')) \<Longrightarrow> same_below (scopes st) (scopes st')"
  unfolding P_list_def by blast

lemma P_whileD:
  "P_while k \<Longrightarrow> eval_while k c b r fr st = Some (Inr (v, fr', st')) \<Longrightarrow> same_below (scopes st) (scopes st')"
  unfolding P_while_def by blast

lemma same_below_eq: "scopes a = scopes b \<Longrightarrow> same_below (scopes b) c \<Longrightarrow> same_below (scopes a) c"
  by simp

lemma eval_stmt_if_Inr:
  assumes "eval_stmt (Suc k) (N_STMT_IF c b eb) fr st = Some (Inr (v, fr', st'))" and "\<not> fst fr"
  shows "\<exists>condv st1. eval_expr k c st = Some (Inr (condv, st1)) \<and> vtype condv = VAL_NUM \<and>
     (if \<not> deq (num condv) (Fin 0) then eval_stmt k b fr st1 = Some (Inr (v, fr', st'))
      else case eb of
             Some e \<Rightarrow> eval_stmt k e fr st1 = Some (Inr (v, fr', st'))
           | None \<Rightarrow> v = none_value \<and> fr' = fr \<and> st' = st1)"
  using assms
  by (fastforce simp add: eval_stmt.simps split: option.splits sum.splits if_splits)

lemma P_stmt_Suc:
  assumes "P_expr k" "P_stmt k" "P_list k" "P_while k"
  shows "P_stmt (Suc k)"
  unfolding P_stmt_def
proof (intro allI impI)
  fix n fr st v fr' st'
  assume e: "eval_stmt (Suc k) n fr st = Some (Inr (v, fr', st'))"
  show "same_below (scopes st) (scopes st')"
  proof (cases "fst fr")
    case True
    then show ?thesis using e by (simp add: eval_stmt.simps)
  next
    case False
    show ?thesis
    proof (cases n)
      case (N_STMT_LIST cs)
      then show ?thesis
        using e False P_listD [OF assms(3)] by (simp add: eval_stmt.simps)
    next
      case (N_STMT_SET name ex)
      then show ?thesis
        using e False P_exprD [OF assms(1)]
        by (auto simp add: eval_stmt.simps split: option.splits sum.splits)
    next
      case (N_STMT_PRINT ex)
      then show ?thesis
        using e False P_exprD [OF assms(1)]
        by (auto simp add: eval_stmt.simps split: option.splits sum.splits)
    next
      case (N_STMT_READ name)
      then show ?thesis
        using e False
        by (auto simp add: eval_stmt.simps split: option.splits sum.splits list.splits)
    next
      case (N_STMT_IF c b eb)
      from eval_stmt_if_Inr [OF e [unfolded N_STMT_IF] False] obtain condv st1 where
        c: "eval_expr k c st = Some (Inr (condv, st1))" and
        r: "if \<not> deq (num condv) (Fin 0) then eval_stmt k b fr st1 = Some (Inr (v, fr', st'))
            else case eb of
                   Some e \<Rightarrow> eval_stmt k e fr st1 = Some (Inr (v, fr', st'))
                 | None \<Rightarrow> v = none_value \<and> fr' = fr \<and> st' = st1"
        by blast
      have s1: "scopes st1 = scopes st"
        using c P_exprD [OF assms(1)] by blast
      have "same_below (scopes st1) (scopes st')"
        using r P_stmtD [OF assms(2)] by (auto split: if_splits option.splits)
      then show ?thesis
        using s1 by simp
    next
      case (N_STMT_WHILE c b)
      then show ?thesis
        using e False P_whileD [OF assms(4)] by (simp add: eval_stmt.simps)
    next
      case (N_STMT_FUNCDEF name ps b)
      then show ?thesis
        using e False by (auto simp add: eval_stmt.simps split: sum.splits)
    next
      case (N_STMT_RETURN ex)
      then show ?thesis
        using e False P_exprD [OF assms(1)]
        by (auto simp add: eval_stmt.simps split: option.splits sum.splits)
    qed (use e False in \<open>auto simp add: eval_stmt.simps\<close>)
  qed
qed

lemma eval_list_Cons_Inr:
  assumes "eval_list (Suc k) (c # rest) l fr st = Some (Inr (v, fr', st'))"
  shows "\<exists>v1 fr1 st1. eval_stmt k c fr st = Some (Inr (v1, fr1, st1)) \<and>
     (if fst fr1 then v = snd fr1 \<and> fr' = fr1 \<and> st' = st1
      else eval_list k rest v1 fr1 st1 = Some (Inr (v, fr', st')))"
  using assms
  by (fastforce simp add: eval_list.simps split: option.splits sum.splits if_splits)

lemma eval_while_Inr:
  assumes "eval_while (Suc k) c b res fr st = Some (Inr (v, fr', st'))"
  shows "\<exists>condv st1. eval_expr k c st = Some (Inr (condv, st1)) \<and>
     (if vtype condv \<noteq> VAL_NUM \<or> deq (num condv) (Fin 0) \<or> fst fr
      then v = res \<and> fr' = fr \<and> st' = st1
      else \<exists>v1 fr1 st2. eval_stmt k b fr st1 = Some (Inr (v1, fr1, st2)) \<and>
             (if fst fr1 then v = snd fr1 \<and> fr' = fr1 \<and> st' = st2
              else eval_while k c b v1 fr1 st2 = Some (Inr (v, fr', st'))))"
  using assms
  by (fastforce simp add: eval_while.simps split: option.splits sum.splits if_splits)

lemma P_list_Suc:
  assumes "P_stmt k" "P_list k"
  shows "P_list (Suc k)"
  unfolding P_list_def
proof (intro allI impI)
  fix cs l fr st v fr' st'
  assume e: "eval_list (Suc k) cs l fr st = Some (Inr (v, fr', st'))"
  show "same_below (scopes st) (scopes st')"
  proof (cases cs)
    case Nil
    then show ?thesis using e by (simp add: eval_list.simps)
  next
    case (Cons c rest)
    from eval_list_Cons_Inr [OF e [unfolded Cons]] obtain v1 fr1 st1 where
      a: "eval_stmt k c fr st = Some (Inr (v1, fr1, st1))" and
      b: "if fst fr1 then v = snd fr1 \<and> fr' = fr1 \<and> st' = st1
          else eval_list k rest v1 fr1 st1 = Some (Inr (v, fr', st'))"
      by blast
    have "same_below (scopes st) (scopes st1)"
      using a P_stmtD [OF assms(1)] by blast
    moreover have "same_below (scopes st1) (scopes st')"
      using b P_listD [OF assms(2)] by (auto split: if_splits)
    ultimately show ?thesis
      by (rule same_below_trans)
  qed
qed

lemma P_while_Suc:
  assumes "P_expr k" "P_stmt k" "P_while k"
  shows "P_while (Suc k)"
  unfolding P_while_def
proof (intro allI impI)
  fix c b res fr st v fr' st'
  assume e: "eval_while (Suc k) c b res fr st = Some (Inr (v, fr', st'))"
  from eval_while_Inr [OF e] obtain condv st1 where
    a: "eval_expr k c st = Some (Inr (condv, st1))" and
    b: "if vtype condv \<noteq> VAL_NUM \<or> deq (num condv) (Fin 0) \<or> fst fr
        then v = res \<and> fr' = fr \<and> st' = st1
        else \<exists>v1 fr1 st2. eval_stmt k b fr st1 = Some (Inr (v1, fr1, st2)) \<and>
             (if fst fr1 then v = snd fr1 \<and> fr' = fr1 \<and> st' = st2
              else eval_while k c b v1 fr1 st2 = Some (Inr (v, fr', st')))"
    by blast
  have s1: "scopes st1 = scopes st"
    using a P_exprD [OF assms(1)] by blast
  have "same_below (scopes st1) (scopes st')"
  proof (cases "vtype condv \<noteq> VAL_NUM \<or> deq (num condv) (Fin 0) \<or> fst fr")
    case True
    then show ?thesis using b by simp
  next
    case False
    then obtain v1 fr1 st2 where
      c: "eval_stmt k b fr st1 = Some (Inr (v1, fr1, st2))" and
      d: "if fst fr1 then v = snd fr1 \<and> fr' = fr1 \<and> st' = st2
          else eval_while k c b v1 fr1 st2 = Some (Inr (v, fr', st'))"
      using b by auto
    have "same_below (scopes st1) (scopes st2)"
      using c P_stmtD [OF assms(2)] by blast
    moreover have "same_below (scopes st2) (scopes st')"
      using d P_whileD [OF assms(3)] by (auto split: if_splits)
    ultimately show ?thesis
      by (rule same_below_trans)
  qed
  then show "same_below (scopes st) (scopes st')"
    using s1 by simp
qed

lemma P_0: "P_stmt 0 \<and> P_list 0 \<and> P_while 0 \<and> P_expr 0 \<and> P_args 0"
  by (simp add: P_stmt_def P_list_def P_while_def P_expr_def P_args_def
      eval_stmt.simps eval_list.simps eval_while.simps eval_expr.simps eval_args.simps)

lemma P_all: "P_stmt k \<and> P_list k \<and> P_while k \<and> P_expr k \<and> P_args k"
proof (induction k)
  case 0
  show ?case by (rule P_0)
next
  case (Suc k)
  then show ?case
    using P_stmt_Suc P_list_Suc P_while_Suc P_expr_Suc P_args_Suc by blast
qed

lemma eval_expr_scopes: "eval_expr k n st = Some (Inr (v, st')) \<Longrightarrow> scopes st' = scopes st"
  using P_all [of k] P_exprD by blast

lemma eval_args_scopes: "eval_args k as st = Some (Inr (vs, st')) \<Longrightarrow> scopes st' = scopes st"
  using P_all [of k] unfolding P_args_def by blast

lemma eval_stmt_scopes:
  "eval_stmt k n fr st = Some (Inr (v, fr', st')) \<Longrightarrow> same_below (scopes st) (scopes st')"
  using P_all [of k] P_stmtD by blast

subsection \<open>A small program state for the examples\<close>

text \<open>
  The global scope holds \<^verbatim>\<open>x = 4\<close>; the function \<^verbatim>\<open>f(x)\<close> sets its local \<^verbatim>\<open>t\<close> to
  \<^verbatim>\<open>x + 1\<close>, prints it and returns it; the call is \<^verbatim>\<open>f(x + 10)\<close>.
\<close>

definition demo_f :: FuncDef where
  "demo_f = \<lparr>fname = ''f'', params = [''x''],
     body = N_STMT_LIST
       [N_STMT_SET ''t'' (N_EXPR_BINARY T_PLUS (N_EXPR_VAR ''x'') (N_EXPR_NUMBER (Fin 1))),
        N_STMT_PRINT (N_EXPR_VAR ''t''),
        N_STMT_RETURN (Some (N_EXPR_VAR ''t''))]\<rparr>"

definition demo_state :: State where
  "demo_state = \<lparr>scopes = [[(''x'', num_value (Fin 4))]], func_table = [demo_f],
     stdout = [], stdin = []\<rparr>"

definition demo_call :: Node where
  "demo_call = N_EXPR_CALL ''f'' [N_EXPR_BINARY T_PLUS (N_EXPR_VAR ''x'') (N_EXPR_NUMBER (Fin 10))]"

lemma demo_call_result:
  "eval_expr 9 demo_call demo_state = Some (Inr (num_value (Fin 15), demo_state\<lparr>stdout := ''15'' @ [LF]\<rparr>))"
  by code_simp

subsection \<open>The first revision: \<^verbatim>\<open>eval_expr\<close> of \<^verbatim>\<open>easylang.c\<close>\<close>

text \<open>
  The first revision has one global list of variables, no functions and no runtime
  errors: \<^verbatim>\<open>eval_expr\<close> returns a value for every node. Its binary operators read the
  field \<^verbatim>\<open>num\<close> of both operands without looking at their types.
\<close>

definition eval_binary_v1 :: "TokenType \<Rightarrow> Value \<Rightarrow> Value \<Rightarrow> Value" where
  "eval_binary_v1 op l r =
     (case op of
        T_PLUS \<Rightarrow>
          if vtype l = VAL_STR \<or> vtype r = VAL_STR
          then (let lstr = (if vtype l = VAL_STR then (case str l of Some s \<Rightarrow> s | None \<Rightarrow> [])
                            else fmt_g (num l));
                    rstr = (if vtype r = VAL_STR then (case str r of Some s \<Rightarrow> s | None \<Rightarrow> [])
                            else fmt_g (num r))
                in str_value (lstr @ rstr))
          else num_value (dadd (num l) (num r))
      | T_MINUS \<Rightarrow> num_value (dsub (num l) (num r))
      | T_MUL \<Rightarrow> num_value (dmul (num l) (num r))
      | T_DIV \<Rightarrow> num_value (ddiv (num l) (num r))
      | T_MOD \<Rightarrow> num_value (fmod (num l) (num r))
      | T_EQ \<Rightarrow> num_value (if deq (num l) (num r) then Fin 1 else Fin 0)
      | T_NEQ \<Rightarrow> num_value (if \<not> deq (num l) (num r) then Fin 1 else Fin 0)
      | T_GT \<Rightarrow> num_value (if dlt (num r) (num l) then Fin 1 else Fin 0)
      | T_LT \<Rightarrow> num_value (if dlt (num l) (num r) then Fin 1 else Fin 0)
      | T_LE \<Rightarrow> num_value (if dle (num l) (num r) then Fin 1 else Fin 0)
      | T_GE \<Rightarrow> num_value (if dle (num r) (num l) then Fin 1 else Fin 0)
      | T_AND \<Rightarrow> num_value (if \<not> deq (num l) (Fin 0) \<and> \<not> deq (num r) (Fin 0) then Fin 1 else Fin 0)
      | _ \<Rightarrow> none_value)"

fun eval_expr_v1 :: "Scope \<Rightarrow> Node \<Rightarrow> Value" where
  "eval_expr_v1 vars (N_EXPR_NUMBER d) = num_value d"
| "eval_expr_v1 vars (N_EXPR_STRING s) = str_value s"
| "eval_expr_v1 vars (N_EXPR_VAR name) =
     (case find_var name vars of Some v \<Rightarrow> v | None \<Rightarrow> none_value)"
| "eval_expr_v1 vars (N_EXPR_BINARY op l r) =
     eval_binary_v1 op (eval_expr_v1 vars l) (eval_expr_v1 vars r)"
| "eval_expr_v1 vars n = none_value"

subsection \<open>One step of \<open>eval_expr\<close>\<close>

lemma eval_expr_number: "eval_expr (Suc k) (N_EXPR_NUMBER d) st = Some (Inr (num_value d, st))"
  by (simp add: eval_expr.simps)

lemma eval_expr_string: "eval_expr (Suc k) (N_EXPR_STRING s) st = Some (Inr (str_value s, st))"
  by (simp add: eval_expr.simps)

lemma eval_expr_binary:
  "eval_expr k l st = Some (Inr (lv, st1)) \<Longrightarrow> eval_expr k r st1 = Some (Inr (rv, st2)) \<Longrightarrow>
   eval_expr (Suc k) (N_EXPR_BINARY op l r) st =
     (case eval_binary op lv rv of Inl e \<Rightarrow> Some (Inl (e, st2)) | Inr v \<Rightarrow> Some (Inr (v, st2)))"
  by (simp add: eval_expr.simps)

subsection \<open>Lookup along the scope stack\<close>

lemma find_chain_None: "find_chain x ss = None \<Longrightarrow> s \<in> set ss \<Longrightarrow> find_var x s = None"
  by (induction ss) (auto split: option.splits)

lemma var_get_find_chain: "var_get x ss = find_chain x ss"
proof (cases "find_chain x ss")
  case None
  then have "ss \<noteq> [] \<Longrightarrow> find_var x (last ss) = None"
    using find_chain_None [of x ss "last ss"] by simp
  then show ?thesis
    using None by (simp add: var_get_def)
next
  case (Some v)
  then show ?thesis by (simp add: var_get_def)
qed

lemma var_get_Cons:
  "var_get x (s # ss) = (case find_var x s of Some v \<Rightarrow> Some v | None \<Rightarrow> var_get x ss)"
  by (simp add: var_get_find_chain split: option.splits)

lemma find_var_overwrite_same:
  "find_var p s = Some w \<Longrightarrow> find_var p (overwrite p v s) = Some v"
  by (induction s) (auto split: if_splits)

lemma find_var_overwrite_other:
  "x \<noteq> p \<Longrightarrow> find_var x (overwrite p v s) = find_var x s"
  by (induction s) auto

lemma var_set_Cons:
  "\<exists>s1. var_set p v (s # ss) = s1 # ss \<and> (\<forall>x. find_var x s1 = (if x = p then Some v else find_var x s))"
  by (cases "find_var p s")
     (auto simp add: var_set_def find_var_overwrite_same find_var_overwrite_other)

lemma bind_params_Cons:
  "\<exists>s1. bind_params ps vs (s # ss) = s1 # ss
     \<and> (\<forall>x. x \<notin> set ps \<longrightarrow> find_var x s1 = find_var x s)
     \<and> (length ps = length vs \<longrightarrow> distinct ps \<longrightarrow> (\<forall>i < length ps. find_var (ps ! i) s1 = Some (vs ! i)))"
proof (induction ps vs "s # ss" arbitrary: s rule: bind_params.induct)
  case (1 p ps v vs)
  obtain s0 where s0: "var_set p v (s # ss) = s0 # ss"
    and f0: "\<forall>x. find_var x s0 = (if x = p then Some v else find_var x s)"
    using var_set_Cons by blast
  from 1 [OF s0] obtain s1 where s1: "bind_params ps vs (s0 # ss) = s1 # ss"
    and n1: "\<forall>x. x \<notin> set ps \<longrightarrow> find_var x s1 = find_var x s0"
    and d1: "length ps = length vs \<longrightarrow> distinct ps \<longrightarrow> (\<forall>i < length ps. find_var (ps ! i) s1 = Some (vs ! i))"
    by blast
  have "bind_params (p # ps) (v # vs) (s # ss) = s1 # ss"
    using s0 s1 by simp
  moreover have "\<forall>x. x \<notin> set (p # ps) \<longrightarrow> find_var x s1 = find_var x s"
    using n1 f0 by simp
  moreover have "length (p # ps) = length (v # vs) \<longrightarrow> distinct (p # ps) \<longrightarrow>
      (\<forall>i < length (p # ps). find_var ((p # ps) ! i) s1 = Some ((v # vs) ! i))"
  proof (intro impI allI)
    fix i
    assume l: "length (p # ps) = length (v # vs)" and d: "distinct (p # ps)" and i: "i < length (p # ps)"
    show "find_var ((p # ps) ! i) s1 = Some ((v # vs) ! i)"
    proof (cases i)
      case 0
      then show ?thesis using n1 f0 d by simp
    next
      case (Suc j)
      then show ?thesis using d1 l d i by simp
    qed
  qed
  ultimately show ?case by blast
qed auto

lemma bind_params_push_tl: "tl (bind_params ps vs (push_scope ss)) = ss"
  using bind_params_Cons [of ps vs "[]" ss] by (auto simp: push_scope_def)

lemma var_get_bind_params_other:
  assumes "x \<notin> set ps"
  shows "var_get x (bind_params ps vs (push_scope ss)) = var_get x ss"
  using bind_params_Cons [of ps vs "[]" ss] assms by (auto simp: push_scope_def var_get_Cons)

lemma var_get_bind_params_nth:
  assumes "length ps = length vs" "distinct ps" "i < length ps"
  shows "var_get (ps ! i) (bind_params ps vs (push_scope ss)) = Some (vs ! i)"
  using bind_params_Cons [of ps vs "[]" ss] assms by (auto simp: push_scope_def var_get_Cons)


lemma eval_expr_var_Inr:
  "eval_expr k (N_EXPR_VAR x) st = Some (Inr (v, st')) \<Longrightarrow> var_get x (scopes st) = Some v"
  by (cases k) (auto simp add: eval_expr.simps split: option.splits)

lemma eval_args_length:
  "eval_args k as st = Some (Inr (vs, st')) \<Longrightarrow> length vs = length as"
proof (induction as arbitrary: k st vs)
  case Nil
  then show ?case by (cases k) (auto simp add: eval_args.simps)
next
  case (Cons a as)
  then obtain j where k: "k = Suc j"
    by (cases k) (auto simp add: eval_args.simps)
  from eval_args_Cons_Inr [OF Cons.prems [unfolded k]] obtain v st1 vs' where
    "eval_args j as st1 = Some (Inr (vs', st'))" "vs = v # vs'"
    by blast
  then show ?case using Cons.IH by auto
qed

lemma eval_args_var:
  "eval_args k as st = Some (Inr (vs, st')) \<Longrightarrow> i < length as \<Longrightarrow> as ! i = N_EXPR_VAR x \<Longrightarrow>
     var_get x (scopes st) = Some (vs ! i)"
proof (induction as arbitrary: k st vs i)
  case Nil
  then show ?case by simp
next
  case (Cons a as)
  then obtain j where k: "k = Suc j"
    by (cases k) (auto simp add: eval_args.simps)
  from eval_args_Cons_Inr [OF Cons.prems(1) [unfolded k]] obtain v st1 vs' where
    a: "eval_expr j a st = Some (Inr (v, st1))" and
    r: "eval_args j as st1 = Some (Inr (vs', st'))" and vs: "vs = v # vs'"
    by blast
  show ?case
  proof (cases i)
    case 0
    then show ?thesis
      using a vs Cons.prems(3) eval_expr_var_Inr by auto
  next
    case (Suc i')
    then have "var_get x (scopes st1) = Some (vs' ! i')"
      using Cons.IH [OF r] Cons.prems by simp
    then show ?thesis
      using eval_expr_scopes [OF a] vs Suc by simp
  qed
qed

lemma eval_expr_call:
  assumes "func_get name (func_table st) = Some f" and "length (params f) = length args"
    and "eval_args k args st = Some (Inr (vs, st1))"
    and "eval_stmt k (body f) (False, none_value) (call_entry f vs st1) = Some (Inr (r, fr, st2))"
  shows "eval_expr (Suc k) (N_EXPR_CALL name args) st
           = Some (Inr (if fst fr then snd fr else r, call_exit st2))"
  using assms by (simp add: eval_expr.simps call_entry_def call_exit_def)


text \<open>The state \<^verbatim>\<open>main\<close> starts the evaluation from: the global scope pushed, no function.\<close>

definition init_state :: "(string \<times> double option) list \<Rightarrow> State" where
  "init_state inp = \<lparr>scopes = push_scope [], func_table = [], stdout = [], stdin = inp\<rparr>"

text \<open>
  The program
  \<^verbatim>\<open>function g() { return y }  function f() { set y to 5  return g() }  print f()\<close>
  as a syntax tree: \<^verbatim>\<open>y\<close> is a local variable of \<^verbatim>\<open>f\<close>, and \<^verbatim>\<open>g\<close> reads it.
\<close>

definition dyn_g_body :: Node where
  "dyn_g_body = N_STMT_LIST [N_STMT_RETURN (Some (N_EXPR_VAR ''y''))]"

definition dyn_f_body :: Node where
  "dyn_f_body = N_STMT_LIST [N_STMT_SET ''y'' (N_EXPR_NUMBER (Fin 5)),
                             N_STMT_RETURN (Some (N_EXPR_CALL ''g'' []))]"

definition dyn_prog :: Node where
  "dyn_prog = N_STMT_LIST [N_STMT_FUNCDEF ''g'' [] dyn_g_body,
                           N_STMT_FUNCDEF ''f'' [] dyn_f_body,
                           N_STMT_PRINT (N_EXPR_CALL ''f'' [])]"

text \<open>
  A state inside that program: the call of \<^verbatim>\<open>f\<close> has pushed its scope on the global scope
  and has set \<^verbatim>\<open>y\<close> there.
\<close>

definition dyn_state :: State where
  "dyn_state = \<lparr>scopes = [[(''y'', num_value (Fin 5))], []],
     func_table = [\<lparr>fname = ''g'', params = [], body = dyn_g_body\<rparr>,
                   \<lparr>fname = ''f'', params = [], body = dyn_f_body\<rparr>],
     stdout = [], stdin = []\<rparr>"

subsection \<open>The returned signal\<close>

text \<open>
  \<open>R_stmt\<close>, \<open>R_list\<close> and \<open>R_while\<close>: a statement that ends with the signal set yields the
  return value.
\<close>

definition R_stmt :: "nat \<Rightarrow> bool" where
  "R_stmt k = (\<forall>n fr st v fr1 st1.
     eval_stmt k n fr st = Some (Inr (v, fr1, st1)) \<longrightarrow> fst fr1 \<longrightarrow> v = snd fr1)"

definition R_list :: "nat \<Rightarrow> bool" where
  "R_list k = (\<forall>cs l fr st v fr1 st1.
     eval_list k cs l fr st = Some (Inr (v, fr1, st1)) \<longrightarrow> fst fr1 \<longrightarrow> \<not> fst fr \<longrightarrow> v = snd fr1)"

definition R_while :: "nat \<Rightarrow> bool" where
  "R_while k = (\<forall>c b r fr st v fr1 st1.
     eval_while k c b r fr st = Some (Inr (v, fr1, st1)) \<longrightarrow> fst fr1 \<longrightarrow> \<not> fst fr \<longrightarrow> v = snd fr1)"

lemma R_stmtD:
  "R_stmt k \<Longrightarrow> eval_stmt k n fr st = Some (Inr (v, fr1, st1)) \<Longrightarrow> fst fr1 \<Longrightarrow> v = snd fr1"
  unfolding R_stmt_def by blast

lemma R_listD:
  "R_list k \<Longrightarrow> eval_list k cs l fr st = Some (Inr (v, fr1, st1)) \<Longrightarrow> fst fr1 \<Longrightarrow> \<not> fst fr \<Longrightarrow> v = snd fr1"
  unfolding R_list_def by blast

lemma R_whileD:
  "R_while k \<Longrightarrow> eval_while k c b r fr st = Some (Inr (v, fr1, st1)) \<Longrightarrow> fst fr1 \<Longrightarrow> \<not> fst fr \<Longrightarrow> v = snd fr1"
  unfolding R_while_def by blast

lemma eval_stmt_returned:
  "fst fr \<Longrightarrow> eval_stmt (Suc k) n fr st = Some (Inr (snd fr, fr, st))"
  by (simp add: eval_stmt.simps)

lemma R_stmt_Suc:
  assumes "R_stmt k" "R_list k" "R_while k"
  shows "R_stmt (Suc k)"
  unfolding R_stmt_def
proof (intro allI impI)
  fix n fr st v fr1 st1
  assume e: "eval_stmt (Suc k) n fr st = Some (Inr (v, fr1, st1))" and f: "fst fr1"
  show "v = snd fr1"
  proof (cases "fst fr")
    case True
    then show ?thesis using e by (auto simp add: eval_stmt.simps)
  next
    case False
    show ?thesis
    proof (cases n)
      case (N_STMT_LIST cs)
      then show ?thesis
        using e f False R_listD [OF assms(2)] by (simp add: eval_stmt.simps)
    next
      case (N_STMT_SET name ex)
      then show ?thesis
        using e f False
        by (auto simp add: eval_stmt.simps split: option.splits sum.splits)
    next
      case (N_STMT_PRINT ex)
      then show ?thesis
        using e f False
        by (auto simp add: eval_stmt.simps split: option.splits sum.splits)
    next
      case (N_STMT_READ name)
      then show ?thesis
        using e f False
        by (auto simp add: eval_stmt.simps split: option.splits sum.splits list.splits)
    next
      case (N_STMT_IF c b eb)
      from eval_stmt_if_Inr [OF e [unfolded N_STMT_IF] False] obtain condv st0 where
        "eval_expr k c st = Some (Inr (condv, st0))" and "vtype condv = VAL_NUM" and
        r: "if \<not> deq (num condv) (Fin 0) then eval_stmt k b fr st0 = Some (Inr (v, fr1, st1))
            else case eb of
                   Some e \<Rightarrow> eval_stmt k e fr st0 = Some (Inr (v, fr1, st1))
                 | None \<Rightarrow> v = none_value \<and> fr1 = fr \<and> st1 = st0"
        by blast
      then show ?thesis
        using f False R_stmtD [OF assms(1)] by (auto split: if_splits option.splits)
    next
      case (N_STMT_WHILE c b)
      then show ?thesis
        using e f False R_whileD [OF assms(3)] by (simp add: eval_stmt.simps)
    next
      case (N_STMT_FUNCDEF name ps b)
      then show ?thesis
        using e f False by (auto simp add: eval_stmt.simps split: sum.splits)
    next
      case (N_STMT_RETURN ex)
      then show ?thesis
        using e f False
        by (auto simp add: eval_stmt.simps split: option.splits sum.splits)
    qed (use e f False in \<open>auto simp add: eval_stmt.simps\<close>)
  qed
qed

lemma R_list_Suc:
  assumes "R_stmt k" "R_list k"
  shows "R_list (Suc k)"
  unfolding R_list_def
proof (intro allI impI)
  fix cs l fr st v fr1 st1
  assume e: "eval_list (Suc k) cs l fr st = Some (Inr (v, fr1, st1))" and f: "fst fr1" and nf: "\<not> fst fr"
  show "v = snd fr1"
  proof (cases cs)
    case Nil
    then show ?thesis using e f nf by (simp add: eval_list.simps)
  next
    case (Cons c rest)
    from eval_list_Cons_Inr [OF e [unfolded Cons]] obtain v0 fr0 st0 where
      "eval_stmt k c fr st = Some (Inr (v0, fr0, st0))" and
      b: "if fst fr0 then v = snd fr0 \<and> fr1 = fr0 \<and> st1 = st0
          else eval_list k rest v0 fr0 st0 = Some (Inr (v, fr1, st1))"
      by blast
    then show ?thesis
      using f R_listD [OF assms(2)] by (auto split: if_splits)
  qed
qed

lemma R_while_Suc:
  assumes "R_stmt k" "R_while k"
  shows "R_while (Suc k)"
  unfolding R_while_def
proof (intro allI impI)
  fix c b res fr st v fr1 st1
  assume e: "eval_while (Suc k) c b res fr st = Some (Inr (v, fr1, st1))" and f: "fst fr1" and nf: "\<not> fst fr"
  from eval_while_Inr [OF e] obtain condv st0 where
    "eval_expr k c st = Some (Inr (condv, st0))" and
    b: "if vtype condv \<noteq> VAL_NUM \<or> deq (num condv) (Fin 0) \<or> fst fr
        then v = res \<and> fr1 = fr \<and> st1 = st0
        else \<exists>v0 fr0 st2. eval_stmt k b fr st0 = Some (Inr (v0, fr0, st2)) \<and>
             (if fst fr0 then v = snd fr0 \<and> fr1 = fr0 \<and> st1 = st2
              else eval_while k c b v0 fr0 st2 = Some (Inr (v, fr1, st1)))"
    by blast
  show "v = snd fr1"
  proof (cases "vtype condv \<noteq> VAL_NUM \<or> deq (num condv) (Fin 0) \<or> fst fr")
    case True
    then show ?thesis using b f nf by auto
  next
    case False
    then obtain v0 fr0 st2 where
      "eval_stmt k b fr st0 = Some (Inr (v0, fr0, st2))" and
      d: "if fst fr0 then v = snd fr0 \<and> fr1 = fr0 \<and> st1 = st2
          else eval_while k c b v0 fr0 st2 = Some (Inr (v, fr1, st1))"
      using b by auto
    then show ?thesis
      using f R_whileD [OF assms(2)] by (auto split: if_splits)
  qed
qed

lemma R_all: "R_stmt k \<and> R_list k \<and> R_while k"
proof (induction k)
  case 0
  show ?case
    by (simp add: R_stmt_def R_list_def R_while_def eval_stmt.simps eval_list.simps eval_while.simps)
next
  case (Suc k)
  then show ?case
    using R_stmt_Suc R_list_Suc R_while_Suc by blast
qed

lemma eval_stmt_returned_value:
  "eval_stmt k n fr st = Some (Inr (v, fr1, st1)) \<Longrightarrow> fst fr1 \<Longrightarrow> v = snd fr1"
  using R_all [of k] R_stmtD by blast

lemma eval_list_stops:
  assumes "eval_stmt k n fr st = Some (Inr (v, fr1, st1))" and "fst fr1"
  shows "eval_list (Suc k) (n # rest) l fr st = Some (Inr (snd fr1, fr1, st1))"
  using assms by (simp add: eval_list.simps)

lemma eval_while_stops:
  assumes "eval_expr k c st0 = Some (Inr (condv, st))" and "vtype condv = VAL_NUM"
    and "\<not> deq (num condv) (Fin 0)" and "\<not> fst fr"
    and "eval_stmt k n fr st = Some (Inr (v, fr1, st1))" and "fst fr1"
  shows "eval_while (Suc k) c n res fr st0 = Some (Inr (snd fr1, fr1, st1))"
  using assms by (simp add: eval_while.simps)

lemma eval_if_then:
  assumes "eval_expr k c st0 = Some (Inr (condv, st))" and "vtype condv = VAL_NUM"
    and "\<not> deq (num condv) (Fin 0)" and "\<not> fst fr"
  shows "eval_stmt (Suc k) (N_STMT_IF c n eb) fr st0 = eval_stmt k n fr st"
  using assms by (simp add: eval_stmt.simps)

lemma eval_if_else:
  assumes "eval_expr k c st0 = Some (Inr (condv, st))" and "vtype condv = VAL_NUM"
    and "deq (num condv) (Fin 0)" and "\<not> fst fr"
  shows "eval_stmt (Suc k) (N_STMT_IF c b (Some n)) fr st0 = eval_stmt k n fr st"
  using assms by (simp add: eval_stmt.simps)

lemma eval_return_sets:
  assumes "eval_stmt k (N_STMT_RETURN e) fr st = Some (Inr (v, fr1, st1))"
  shows "fst fr1 \<and> v = snd fr1"
  using assms
  by (cases k; cases "fst fr")
     (auto simp add: eval_stmt.simps split: option.splits sum.splits)

lemma eval_print_keeps:
  assumes "eval_stmt k (N_STMT_PRINT e) fr st = Some (Inr (v, fr1, st1))"
  shows "fr1 = fr"
  using assms
  by (cases k; cases "fst fr")
     (auto simp add: eval_stmt.simps split: option.splits sum.splits)

lemma eval_set_keeps:
  assumes "eval_stmt k (N_STMT_SET x e) fr st = Some (Inr (v, fr1, st1))"
  shows "fr1 = fr"
  using assms
  by (cases k; cases "fst fr")
     (auto simp add: eval_stmt.simps split: option.splits sum.splits)


text \<open>
  The program
  \<^verbatim>\<open>function f() { set i to 0  while i < 10 do  if i == 3 then return i end  set i to i + 1  end  return 99 }\<close>
  \<^verbatim>\<open>print f()  print 7\<close>
  as a syntax tree: the \<^verbatim>\<open>return\<close> stands in an \<^verbatim>\<open>if\<close> in a \<^verbatim>\<open>while\<close> in the body.
\<close>

definition ret_f_body :: Node where
  "ret_f_body = N_STMT_LIST
     [N_STMT_SET ''i'' (N_EXPR_NUMBER (Fin 0)),
      N_STMT_WHILE (N_EXPR_BINARY T_LT (N_EXPR_VAR ''i'') (N_EXPR_NUMBER (Fin 10)))
        (N_STMT_LIST
           [N_STMT_IF (N_EXPR_BINARY T_EQ (N_EXPR_VAR ''i'') (N_EXPR_NUMBER (Fin 3)))
              (N_STMT_LIST [N_STMT_RETURN (Some (N_EXPR_VAR ''i''))]) None,
            N_STMT_SET ''i'' (N_EXPR_BINARY T_PLUS (N_EXPR_VAR ''i'') (N_EXPR_NUMBER (Fin 1)))]),
      N_STMT_RETURN (Some (N_EXPR_NUMBER (Fin 99)))]"

definition ret_prog :: Node where
  "ret_prog = N_STMT_LIST [N_STMT_FUNCDEF ''f'' [] ret_f_body,
                           N_STMT_PRINT (N_EXPR_CALL ''f'' []),
                           N_STMT_PRINT (N_EXPR_NUMBER (Fin 7))]"

text \<open>The \<^verbatim>\<open>if\<close> of that program, and a state of the body in which \<^verbatim>\<open>i\<close> is 3.\<close>

definition ret_if :: Node where
  "ret_if = N_STMT_IF (N_EXPR_BINARY T_EQ (N_EXPR_VAR ''i'') (N_EXPR_NUMBER (Fin 3)))
              (N_STMT_LIST [N_STMT_RETURN (Some (N_EXPR_VAR ''i''))]) None"

definition ret_state :: State where
  "ret_state = \<lparr>scopes = [[(''i'', num_value (Fin 3))], []],
     func_table = [\<lparr>fname = ''f'', params = [], body = ret_f_body\<rparr>],
     stdout = [], stdin = []\<rparr>"

section \<open>The second revision with its heap\<close>

text \<open>
  The sections above take a value for its content. The C code holds a string value as a
  pointer to a heap block, which \<^verbatim>\<open>strdup\<close> and \<^verbatim>\<open>malloc\<close> allocate and \<^verbatim>\<open>free\<close>
  releases, and it copies and releases the blocks by hand (\<^verbatim>\<open>value_dup\<close>,
  \<^verbatim>\<open>value_free\<close>). This section embeds \<^verbatim>\<open>eval_stmt\<close> and \<^verbatim>\<open>eval_expr\<close> of the second
  revision once more, with that heap, statement by statement; a definition with the suffix
  \<open>_h\<close> is the function of that name over values that hold pointers.

  The heap is the list of the blocks allocated so far and a pointer is an index into it. An
  allocation appends a block, so an address is never used twice, and it never fails. To read
  a freed block and to free a block twice are undefined in C: the model stops there, with
  the error \<open>Use_after_free\<close> or \<open>Double_free\<close> (an address beyond the heap, which no run
  produces, counts as freed). \<^verbatim>\<open>value_free\<close> also resets the value it is given; the code
  never reads a value again after that, so nothing is kept of it. On a value whose type is
  \<^verbatim>\<open>VAL_NUM\<close> it does nothing: the calls on the condition of \<^verbatim>\<open>if\<close> and \<^verbatim>\<open>while\<close>
  after the type has been tested are left out.
\<close>

datatype block = Live string | Freed

record Value_h =
  vtype_h :: ValueType
  num_h :: double
  str_h :: "nat option"

definition num_value_h :: "double \<Rightarrow> Value_h" where
  "num_value_h d = \<lparr>vtype_h = VAL_NUM, num_h = d, str_h = None\<rparr>"

definition str_value_h :: "nat \<Rightarrow> Value_h" where
  "str_value_h a = \<lparr>vtype_h = VAL_STR, num_h = Fin 0, str_h = Some a\<rparr>"

definition none_value_h :: "Value_h" where
  "none_value_h = \<lparr>vtype_h = VAL_NONE, num_h = Fin 0, str_h = None\<rparr>"

type_synonym Scope_h = "(string \<times> Value_h) list"

record State_h =
  scopes_h :: "Scope_h list"
  func_table_h :: "FuncDef list"
  heap :: "block list"
  stdout_h :: string
  stdin_h :: "(string \<times> double option) list"

type_synonym 'a result_h = "(error \<times> State_h) + 'a"

subsection \<open>Blocks and values\<close>

text \<open>\<^verbatim>\<open>strdup\<close>, and \<^verbatim>\<open>malloc\<close> followed by the copy of a string: the new pointer and the heap.\<close>

definition strdup :: "string \<Rightarrow> State_h \<Rightarrow> nat \<times> State_h" where
  "strdup s st = (length (heap st), st\<lparr>heap := heap st @ [Live s]\<rparr>)"

text \<open>Reading the string a pointer points to.\<close>

definition deref :: "nat \<Rightarrow> State_h \<Rightarrow> string result_h" where
  "deref a st =
     (if a < length (heap st)
      then (case heap st ! a of Live s \<Rightarrow> Inr s | Freed \<Rightarrow> Inl (Use_after_free, st))
      else Inl (Use_after_free, st))"

definition free_h :: "nat \<Rightarrow> State_h \<Rightarrow> State_h result_h" where
  "free_h a st =
     (if a < length (heap st)
      then (case heap st ! a of
              Live s \<Rightarrow> Inr (st\<lparr>heap := (heap st)[a := Freed]\<rparr>)
            | Freed \<Rightarrow> Inl (Double_free, st))
      else Inl (Double_free, st))"

definition value_dup :: "Value_h \<Rightarrow> State_h \<Rightarrow> (Value_h \<times> State_h) result_h" where
  "value_dup v st =
     (if vtype_h v = VAL_STR
      then (case str_h v of
              None \<Rightarrow> Inr (v, st)
            | Some a \<Rightarrow>
                (case deref a st of
                   Inl e \<Rightarrow> Inl e
                 | Inr s \<Rightarrow> Inr (v\<lparr>str_h := Some (fst (strdup s st))\<rparr>, snd (strdup s st))))
      else Inr (v, st))"

definition value_free :: "Value_h \<Rightarrow> State_h \<Rightarrow> State_h result_h" where
  "value_free v st =
     (if vtype_h v = VAL_STR
      then (case str_h v of None \<Rightarrow> Inr st | Some a \<Rightarrow> free_h a st)
      else Inr st)"

subsection \<open>Scopes\<close>

fun find_var_h :: "string \<Rightarrow> Scope_h \<Rightarrow> Value_h option" where
  "find_var_h name [] = None"
| "find_var_h name ((n, v) # vs) = (if n = name then Some v else find_var_h name vs)"

fun find_chain_h :: "string \<Rightarrow> Scope_h list \<Rightarrow> Value_h option" where
  "find_chain_h name [] = None"
| "find_chain_h name (s # ss) =
     (case find_var_h name s of Some v \<Rightarrow> Some v | None \<Rightarrow> find_chain_h name ss)"

definition var_get_h :: "string \<Rightarrow> Scope_h list \<Rightarrow> Value_h option" where
  "var_get_h name ss =
     (case find_chain_h name ss of
        Some v \<Rightarrow> Some v
      | None \<Rightarrow> if ss \<noteq> [] \<and> length ss \<noteq> 1 then find_var_h name (last ss) else None)"

fun overwrite_h :: "string \<Rightarrow> Value_h \<Rightarrow> Scope_h \<Rightarrow> Scope_h" where
  "overwrite_h name val [] = []"
| "overwrite_h name val ((n, v) # vs) =
     (if n = name then (n, val) # vs else (n, v) # overwrite_h name val vs)"

text \<open>
  \<^verbatim>\<open>var_set\<close> stores the value it is given, pointer included: it makes no copy. A
  variable of that name in the current scope has its old string freed first. With no scope
  at all the C code follows a null or dangling \<^verbatim>\<open>global_scope\<close>.
\<close>

definition var_set_h :: "string \<Rightarrow> Value_h \<Rightarrow> State_h \<Rightarrow> State_h result_h" where
  "var_set_h name val st =
     (case scopes_h st of
        [] \<Rightarrow> Inl (Null_pointer, st)
      | s # rest \<Rightarrow>
          (case find_var_h name s of
             Some v \<Rightarrow>
               (case value_free v st of
                  Inl e \<Rightarrow> Inl e
                | Inr st1 \<Rightarrow> Inr (st1\<lparr>scopes_h := overwrite_h name val s # rest\<rparr>))
           | None \<Rightarrow> Inr (st\<lparr>scopes_h := ((name, val) # s) # rest\<rparr>)))"

definition push_scope_h :: "State_h \<Rightarrow> State_h" where
  "push_scope_h st = st\<lparr>scopes_h := [] # scopes_h st\<rparr>"

text \<open>The loop of \<^verbatim>\<open>pop_scope\<close>, which frees the string of every variable of the scope.\<close>

fun free_vars :: "Scope_h \<Rightarrow> State_h \<Rightarrow> State_h result_h" where
  "free_vars [] st = Inr st"
| "free_vars ((n, v) # vs) st =
     (case value_free v st of Inl e \<Rightarrow> Inl e | Inr st1 \<Rightarrow> free_vars vs st1)"

definition pop_scope_h :: "State_h \<Rightarrow> State_h result_h" where
  "pop_scope_h st =
     (case scopes_h st of
        [] \<Rightarrow> Inr st
      | s # rest \<Rightarrow>
          (case free_vars s st of
             Inl e \<Rightarrow> Inl e
           | Inr st1 \<Rightarrow> Inr (st1\<lparr>scopes_h := rest\<rparr>)))"

subsection \<open>Evaluation\<close>

text \<open>
  The operand of \<^verbatim>\<open>+\<close> as a string: \<^verbatim>\<open>l.type == VAL_STR ? (l.str ? l.str : "") :
  (sprintf(lbuf, "%g", l.num), lbuf)\<close>, read when it is copied into the result.
\<close>

definition operand_str :: "Value_h \<Rightarrow> State_h \<Rightarrow> string result_h" where
  "operand_str v st =
     (if vtype_h v = VAL_STR
      then (case str_h v of None \<Rightarrow> Inr [] | Some a \<Rightarrow> deref a st)
      else Inr (fmt_g (num_h v)))"

text \<open>The \<^verbatim>\<open>switch\<close> over the operator, on two numbers.\<close>

definition num_binary :: "TokenType \<Rightarrow> double \<Rightarrow> double \<Rightarrow> error + Value_h" where
  "num_binary op l r =
     (case op of
        T_PLUS \<Rightarrow> Inr (num_value_h (dadd l r))
      | T_MINUS \<Rightarrow> Inr (num_value_h (dsub l r))
      | T_MUL \<Rightarrow> Inr (num_value_h (dmul l r))
      | T_DIV \<Rightarrow> if deq r (Fin 0) then Inl Division_by_zero else Inr (num_value_h (ddiv l r))
      | T_MOD \<Rightarrow> Inr (num_value_h (fmod l r))
      | T_EQ \<Rightarrow> Inr (num_value_h (if deq l r then Fin 1 else Fin 0))
      | T_NEQ \<Rightarrow> Inr (num_value_h (if \<not> deq l r then Fin 1 else Fin 0))
      | T_GT \<Rightarrow> Inr (num_value_h (if dlt r l then Fin 1 else Fin 0))
      | T_LT \<Rightarrow> Inr (num_value_h (if dlt l r then Fin 1 else Fin 0))
      | T_LE \<Rightarrow> Inr (num_value_h (if dle l r then Fin 1 else Fin 0))
      | T_GE \<Rightarrow> Inr (num_value_h (if dle r l then Fin 1 else Fin 0))
      | T_AND \<Rightarrow> Inr (num_value_h (if \<not> deq l (Fin 0) \<and> \<not> deq r (Fin 0) then Fin 1 else Fin 0))
      | _ \<Rightarrow> Inr none_value_h)"

definition eval_binary_h :: "TokenType \<Rightarrow> Value_h \<Rightarrow> Value_h \<Rightarrow> State_h \<Rightarrow> (Value_h \<times> State_h) result_h" where
  "eval_binary_h op l r st =
     (if op = T_PLUS \<and> (vtype_h l = VAL_STR \<or> vtype_h r = VAL_STR)
      then (case operand_str l st of
              Inl e \<Rightarrow> Inl e
            | Inr lstr \<Rightarrow>
                (case operand_str r st of
                   Inl e \<Rightarrow> Inl e
                 | Inr rstr \<Rightarrow>
                     (case value_free l (snd (strdup (lstr @ rstr) st)) of
                        Inl e \<Rightarrow> Inl e
                      | Inr st1 \<Rightarrow>
                          (case value_free r st1 of
                             Inl e \<Rightarrow> Inl e
                           | Inr st2 \<Rightarrow> Inr (str_value_h (fst (strdup (lstr @ rstr) st)), st2)))))
      else if vtype_h l \<noteq> VAL_NUM \<or> vtype_h r \<noteq> VAL_NUM
      then (case value_free l st of
              Inl e \<Rightarrow> Inl e
            | Inr st1 \<Rightarrow>
                (case value_free r st1 of
                   Inl e \<Rightarrow> Inl e
                 | Inr st2 \<Rightarrow> Inl (Non_numeric_operand, st2)))
      else (case num_binary op (num_h l) (num_h r) of
              Inl e \<Rightarrow> Inl (e, st)
            | Inr result \<Rightarrow>
                (case value_free l st of
                   Inl e \<Rightarrow> Inl e
                 | Inr st1 \<Rightarrow>
                     (case value_free r st1 of
                        Inl e \<Rightarrow> Inl e
                      | Inr st2 \<Rightarrow> Inr (result, st2)))))"

text \<open>
  The loop of the call that binds the parameters in the new scope: \<^verbatim>\<open>var_set\<close> stores
  the value of the argument, and \<^verbatim>\<open>value_free\<close> then frees that same value.
\<close>

fun bind_params_h :: "string list \<Rightarrow> Value_h list \<Rightarrow> State_h \<Rightarrow> State_h result_h" where
  "bind_params_h (p # ps) (v # vs) st =
     (case var_set_h p v st of
        Inl e \<Rightarrow> Inl e
      | Inr st1 \<Rightarrow>
          (case value_free v st1 of
             Inl e \<Rightarrow> Inl e
           | Inr st2 \<Rightarrow> bind_params_h ps vs st2))"
| "bind_params_h ps vs st = Inr st"

text \<open>\<^verbatim>\<open>N_STMT_PRINT\<close>: the line written, then the value freed.\<close>

definition print_h :: "Value_h \<Rightarrow> State_h \<Rightarrow> State_h result_h" where
  "print_h v st =
     (if vtype_h v = VAL_NUM
      then value_free v (st\<lparr>stdout_h := stdout_h st @ fmt_g (num_h v) @ [LF]\<rparr>)
      else if vtype_h v = VAL_STR
      then (case (case str_h v of None \<Rightarrow> Inr [] | Some a \<Rightarrow> deref a st) of
              Inl e \<Rightarrow> Inl e
            | Inr s \<Rightarrow> value_free v (st\<lparr>stdout_h := stdout_h st @ s @ [LF]\<rparr>))
      else value_free v st)"

text \<open>
  \<^verbatim>\<open>N_STMT_RETURN\<close> once the value is there: the flag is set, \<^verbatim>\<open>*return_val\<close> becomes
  a copy of the value, the value is freed, and the statement yields a copy of
  \<^verbatim>\<open>*return_val\<close>.
\<close>

definition return_h :: "Value_h \<Rightarrow> State_h \<Rightarrow> (Value_h \<times> (bool \<times> Value_h) \<times> State_h) result_h" where
  "return_h ret_val st =
     (case value_dup ret_val st of
        Inl e \<Rightarrow> Inl e
      | Inr (rv, st1) \<Rightarrow>
          (case value_free ret_val st1 of
             Inl e \<Rightarrow> Inl e
           | Inr st2 \<Rightarrow>
               (case value_dup rv st2 of
                  Inl e \<Rightarrow> Inl e
                | Inr (v, st3) \<Rightarrow> Inr (v, (True, rv), st3))))"

text \<open>
  What the loops of \<^verbatim>\<open>N_STMT_LIST\<close> and \<^verbatim>\<open>N_STMT_WHILE\<close> do when the flag is set: they
  yield a copy of \<^verbatim>\<open>*return_val\<close> and free the result of the statement.
\<close>

definition stop_h :: "Value_h \<Rightarrow> bool \<times> Value_h \<Rightarrow> State_h \<Rightarrow> (Value_h \<times> (bool \<times> Value_h) \<times> State_h) result_h" where
  "stop_h v fr st =
     (case value_dup (snd fr) st of
        Inl e \<Rightarrow> Inl e
      | Inr (rv, st1) \<Rightarrow>
          (case value_free v st1 of
             Inl e \<Rightarrow> Inl e
           | Inr st2 \<Rightarrow> Inr (rv, fr, st2)))"

text \<open>
  The end of a call, after the body: the scope is popped, the result is a copy of the
  return value (and the result of the body is freed) or the result of the body itself, and
  the return value of the frame is freed.
\<close>

definition call_return_h :: "Value_h \<Rightarrow> bool \<times> Value_h \<Rightarrow> State_h \<Rightarrow> (Value_h \<times> State_h) result_h" where
  "call_return_h func_result fr st =
     (case pop_scope_h st of
        Inl e \<Rightarrow> Inl e
      | Inr st1 \<Rightarrow>
          (if fst fr
           then (case value_dup (snd fr) st1 of
                   Inl e \<Rightarrow> Inl e
                 | Inr (final_result, st2) \<Rightarrow>
                     (case value_free func_result st2 of
                        Inl e \<Rightarrow> Inl e
                      | Inr st3 \<Rightarrow>
                          (case value_free (snd fr) st3 of
                             Inl e \<Rightarrow> Inl e
                           | Inr st4 \<Rightarrow> Inr (final_result, st4))))
           else (case value_free (snd fr) st1 of
                   Inl e \<Rightarrow> Inl e
                 | Inr st2 \<Rightarrow> Inr (func_result, st2))))"

text \<open>\<^verbatim>\<open>N_STMT_READ\<close> with the line read: a number, or a string that is stored and copied.\<close>

definition read_h :: "string \<Rightarrow> string \<Rightarrow> double option \<Rightarrow> State_h \<Rightarrow> (Value_h \<times> State_h) result_h" where
  "read_h name buf conv st =
     (case conv of
        None \<Rightarrow>
          (case var_set_h name (str_value_h (fst (strdup buf st))) (snd (strdup buf st)) of
             Inl e \<Rightarrow> Inl e
           | Inr st1 \<Rightarrow> value_dup (str_value_h (fst (strdup buf st))) st1)
      | Some val \<Rightarrow>
          (case var_set_h name (num_value_h val) st of
             Inl e \<Rightarrow> Inl e
           | Inr st1 \<Rightarrow> Inr (num_value_h val, st1)))"

function (sequential) eval_stmt_h :: "nat \<Rightarrow> Node \<Rightarrow> bool \<times> Value_h \<Rightarrow> State_h \<Rightarrow> (Value_h \<times> (bool \<times> Value_h) \<times> State_h) result_h option"
  and eval_list_h :: "nat \<Rightarrow> Node list \<Rightarrow> Value_h \<Rightarrow> bool \<times> Value_h \<Rightarrow> State_h \<Rightarrow> (Value_h \<times> (bool \<times> Value_h) \<times> State_h) result_h option"
  and eval_while_h :: "nat \<Rightarrow> Node \<Rightarrow> Node \<Rightarrow> Value_h \<Rightarrow> bool \<times> Value_h \<Rightarrow> State_h \<Rightarrow> (Value_h \<times> (bool \<times> Value_h) \<times> State_h) result_h option"
  and eval_expr_h :: "nat \<Rightarrow> Node \<Rightarrow> State_h \<Rightarrow> (Value_h \<times> State_h) result_h option"
  and eval_args_h :: "nat \<Rightarrow> Node list \<Rightarrow> State_h \<Rightarrow> (Value_h list \<times> State_h) result_h option"
where
  "eval_stmt_h 0 n fr st = None"
| "eval_stmt_h (Suc k) n fr st =
     (if fst fr
      then (case value_dup (snd fr) st of
              Inl e \<Rightarrow> Some (Inl e)
            | Inr (v, st1) \<Rightarrow> Some (Inr (v, fr, st1)))
      else case n of
        N_STMT_LIST cs \<Rightarrow> eval_list_h k cs none_value_h fr st
      | N_STMT_SET name e \<Rightarrow>
          (case eval_expr_h k e st of
             None \<Rightarrow> None
           | Some (Inl err) \<Rightarrow> Some (Inl err)
           | Some (Inr (v, st1)) \<Rightarrow>
               (case var_set_h name v st1 of
                  Inl err \<Rightarrow> Some (Inl err)
                | Inr st2 \<Rightarrow> Some (Inr (v, fr, st2))))
      | N_STMT_PRINT e \<Rightarrow>
          (case eval_expr_h k e st of
             None \<Rightarrow> None
           | Some (Inl err) \<Rightarrow> Some (Inl err)
           | Some (Inr (v, st1)) \<Rightarrow>
               (case print_h v st1 of
                  Inl err \<Rightarrow> Some (Inl err)
                | Inr st2 \<Rightarrow> Some (Inr (none_value_h, fr, st2))))
      | N_STMT_READ name \<Rightarrow>
          (case stdin_h st of
             [] \<Rightarrow> Some (Inl (Input_error, st))
           | (buf, conv) # rest \<Rightarrow>
               (case read_h name buf conv (st\<lparr>stdin_h := rest\<rparr>) of
                  Inl err \<Rightarrow> Some (Inl err)
                | Inr (v, st1) \<Rightarrow> Some (Inr (v, fr, st1))))
      | N_STMT_IF c b else_body \<Rightarrow>
          (case eval_expr_h k c st of
             None \<Rightarrow> None
           | Some (Inl err) \<Rightarrow> Some (Inl err)
           | Some (Inr (condv, st1)) \<Rightarrow>
               if vtype_h condv \<noteq> VAL_NUM then Some (Inl (Condition_not_numeric, st1))
               else if \<not> deq (num_h condv) (Fin 0) then eval_stmt_h k b fr st1
               else (case else_body of
                       Some e \<Rightarrow> eval_stmt_h k e fr st1
                     | None \<Rightarrow> Some (Inr (none_value_h, fr, st1))))
      | N_STMT_WHILE c b \<Rightarrow> eval_while_h k c b none_value_h fr st
      | N_STMT_FUNCDEF name ps b \<Rightarrow>
          (case func_set name ps b (func_table_h st) of
             Inl err \<Rightarrow> Some (Inl (err, st))
           | Inr fs \<Rightarrow> Some (Inr (none_value_h, fr, st\<lparr>func_table_h := fs\<rparr>)))
      | N_STMT_RETURN e \<Rightarrow>
          (case e of
             None \<Rightarrow> Some (return_h (num_value_h (Fin 0)) st)
           | Some e1 \<Rightarrow>
               (case eval_expr_h k e1 st of
                  None \<Rightarrow> None
                | Some (Inl err) \<Rightarrow> Some (Inl err)
                | Some (Inr (ret_val, st1)) \<Rightarrow> Some (return_h ret_val st1)))
      | _ \<Rightarrow> Some (Inr (none_value_h, fr, st)))"

| "eval_list_h 0 cs last_result fr st = None"
| "eval_list_h (Suc k) cs last_result fr st =
     (case cs of
        [] \<Rightarrow> Some (Inr (last_result, fr, st))
      | c # rest \<Rightarrow>
          (case value_free last_result st of
             Inl err \<Rightarrow> Some (Inl err)
           | Inr st0 \<Rightarrow>
               (case eval_stmt_h k c fr st0 of
                  None \<Rightarrow> None
                | Some (Inl err) \<Rightarrow> Some (Inl err)
                | Some (Inr (v, fr1, st1)) \<Rightarrow>
                    if fst fr1 then Some (stop_h v fr1 st1)
                    else eval_list_h k rest v fr1 st1)))"

| "eval_while_h 0 c b res fr st = None"
| "eval_while_h (Suc k) c b res fr st =
     (case eval_expr_h k c st of
        None \<Rightarrow> None
      | Some (Inl err) \<Rightarrow> Some (Inl err)
      | Some (Inr (condv, st1)) \<Rightarrow>
          if vtype_h condv \<noteq> VAL_NUM \<or> deq (num_h condv) (Fin 0) \<or> fst fr
          then (case value_free condv st1 of
                  Inl err \<Rightarrow> Some (Inl err)
                | Inr st2 \<Rightarrow> Some (Inr (res, fr, st2)))
          else (case value_free res st1 of
                  Inl err \<Rightarrow> Some (Inl err)
                | Inr st2 \<Rightarrow>
                    (case eval_stmt_h k b fr st2 of
                       None \<Rightarrow> None
                     | Some (Inl err) \<Rightarrow> Some (Inl err)
                     | Some (Inr (v, fr1, st3)) \<Rightarrow>
                         if fst fr1 then Some (stop_h v fr1 st3)
                         else eval_while_h k c b v fr1 st3)))"

| "eval_expr_h 0 n st = None"
| "eval_expr_h (Suc k) n st =
     (case n of
        N_EXPR_NUMBER d \<Rightarrow> Some (Inr (num_value_h d, st))
      | N_EXPR_STRING s \<Rightarrow> Some (Inr (str_value_h (fst (strdup s st)), snd (strdup s st)))
      | N_EXPR_VAR name \<Rightarrow>
          (case var_get_h name (scopes_h st) of
             None \<Rightarrow> Some (Inl (Undefined_variable name, st))
           | Some v \<Rightarrow> Some (value_dup v st))
      | N_EXPR_CALL name args \<Rightarrow>
          (case func_get name (func_table_h st) of
             None \<Rightarrow> Some (Inl (Undefined_function name, st))
           | Some f \<Rightarrow>
               if length (params f) \<noteq> length args
               then Some (Inl (Arity_mismatch name (length (params f)) (length args), st))
               else (case eval_args_h k args st of
                       None \<Rightarrow> None
                     | Some (Inl err) \<Rightarrow> Some (Inl err)
                     | Some (Inr (arg_values, st1)) \<Rightarrow>
                         (case bind_params_h (params f) arg_values (push_scope_h st1) of
                            Inl err \<Rightarrow> Some (Inl err)
                          | Inr st2 \<Rightarrow>
                              (case eval_stmt_h k (body f) (False, none_value_h) st2 of
                                 None \<Rightarrow> None
                               | Some (Inl err) \<Rightarrow> Some (Inl err)
                               | Some (Inr (func_result, fr, st3)) \<Rightarrow>
                                   Some (call_return_h func_result fr st3)))))
      | N_EXPR_BINARY op l r \<Rightarrow>
          (case eval_expr_h k l st of
             None \<Rightarrow> None
           | Some (Inl err) \<Rightarrow> Some (Inl err)
           | Some (Inr (lv, st1)) \<Rightarrow>
               (case eval_expr_h k r st1 of
                  None \<Rightarrow> None
                | Some (Inl err) \<Rightarrow> Some (Inl err)
                | Some (Inr (rv, st2)) \<Rightarrow> Some (eval_binary_h op lv rv st2)))
      | _ \<Rightarrow> Some (Inr (none_value_h, st)))"

| "eval_args_h 0 args st = None"
| "eval_args_h (Suc k) args st =
     (case args of
        [] \<Rightarrow> Some (Inr ([], st))
      | a # rest \<Rightarrow>
          (case eval_expr_h k a st of
             None \<Rightarrow> None
           | Some (Inl err) \<Rightarrow> Some (Inl err)
           | Some (Inr (v, st1)) \<Rightarrow>
               (case eval_args_h k rest st1 of
                  None \<Rightarrow> None
                | Some (Inl err) \<Rightarrow> Some (Inl err)
                | Some (Inr (vs, st2)) \<Rightarrow> Some (Inr (v # vs, st2)))))"
  by pat_completeness auto
termination
  by (relation "measure (case_sum (case_sum fst fst) (case_sum fst (case_sum fst fst)))") simp_all

declare eval_stmt_h.simps [simp del] eval_list_h.simps [simp del] eval_while_h.simps [simp del]
  eval_expr_h.simps [simp del] eval_args_h.simps [simp del]

text \<open>The state \<^verbatim>\<open>main\<close> starts the evaluation from, with an empty heap.\<close>

definition init_state_h :: "(string \<times> double option) list \<Rightarrow> State_h" where
  "init_state_h inp = push_scope_h \<lparr>scopes_h = [], func_table_h = [], heap = [], stdout_h = [], stdin_h = inp\<rparr>"

text \<open>Freeing changes the heap only.\<close>

lemma free_h_scopes: "free_h a st = Inr st1 \<Longrightarrow> scopes_h st1 = scopes_h st"
  by (auto simp add: free_h_def split: if_splits block.splits)

lemma value_free_scopes: "value_free v st = Inr st1 \<Longrightarrow> scopes_h st1 = scopes_h st"
  by (auto simp add: value_free_def free_h_scopes split: if_splits option.splits)

lemma free_vars_scopes: "free_vars vs st = Inr st1 \<Longrightarrow> scopes_h st1 = scopes_h st"
proof (induction vs arbitrary: st)
  case Nil
  then show ?case by simp
next
  case (Cons a vs)
  obtain n v where a: "a = (n, v)"
    by (cases a)
  from Cons.prems obtain st0 where f: "value_free v st = Inr st0" and r: "free_vars vs st0 = Inr st1"
    by (auto simp add: a split: sum.splits)
  show ?case
    using Cons.IH [OF r] value_free_scopes [OF f] by simp
qed

subsection \<open>The binding of a parameter\<close>

text \<open>
  The state in which the body of a function with the one parameter \<open>p\<close> starts, when the
  value of the argument is \<open>v\<close> and the arguments have been evaluated to the state \<open>st\<close>:
  the new scope holds \<open>p\<close> with the value \<open>v\<close>, and the block of \<open>v\<close>, if it is a string,
  has been freed.
\<close>

definition call_entry_h :: "string \<Rightarrow> Value_h \<Rightarrow> State_h \<Rightarrow> State_h" where
  "call_entry_h p v st =
     st\<lparr>scopes_h := [(p, v)] # scopes_h st,
        heap := (case str_h v of
                   Some b \<Rightarrow> if vtype_h v = VAL_STR then (heap st)[b := Freed] else heap st
                 | None \<Rightarrow> heap st)\<rparr>"

lemma eval_expr_h_fuel: "eval_expr_h k a st = Some r \<Longrightarrow> \<exists>j. k = Suc j"
  by (cases k) (simp_all add: eval_expr_h.simps)

lemma eval_args_h_single:
  assumes "eval_expr_h k a st = Some (Inr (v, st1))"
  shows "eval_args_h (Suc k) [a] st = Some (Inr ([v], st1))"
proof -
  obtain j where "k = Suc j"
    using eval_expr_h_fuel [OF assms] by blast
  then have "eval_args_h k [] st1 = Some (Inr ([], st1))"
    by (simp add: eval_args_h.simps)
  then show ?thesis
    using assms by (simp add: eval_args_h.simps)
qed

lemma bind_params_h_num:
  assumes "vtype_h v = VAL_NUM"
  shows "bind_params_h [p] [v] (push_scope_h st) = Inr (st\<lparr>scopes_h := [(p, v)] # scopes_h st\<rparr>)"
  using assms by (simp add: var_set_h_def push_scope_h_def value_free_def)

lemma bind_params_h_str:
  assumes "vtype_h v = VAL_STR" and "str_h v = Some b" and "b < length (heap st)"
    and "heap st ! b = Live w"
  shows "bind_params_h [p] [v] (push_scope_h st)
     = Inr (st\<lparr>scopes_h := [(p, v)] # scopes_h st, heap := (heap st)[b := Freed]\<rparr>)"
  using assms by (simp add: var_set_h_def push_scope_h_def value_free_def free_h_def)

lemma var_get_h_entry: "var_get_h p (((p, v) # s) # ss) = Some v"
  by (simp add: var_get_h_def)

lemma eval_expr_h_call_single:
  assumes "func_get name (func_table_h st) = Some f" and "params f = [p]"
    and "eval_expr_h k a st = Some (Inr (v, st1))"
    and "bind_params_h [p] [v] (push_scope_h st1) = Inr st2"
  shows "eval_expr_h (Suc (Suc k)) (N_EXPR_CALL name [a]) st
     = (case eval_stmt_h (Suc k) (body f) (False, none_value_h) st2 of
          None \<Rightarrow> None
        | Some (Inl err) \<Rightarrow> Some (Inl err)
        | Some (Inr (func_result, fr, st3)) \<Rightarrow> Some (call_return_h func_result fr st3))"
  using assms eval_args_h_single [OF assms(3)]
  by (simp add: eval_expr_h.simps)

text \<open>
  A function that prints its parameter, called with a string literal and with a number:
  \<^verbatim>\<open>function f(s) { print s }\<close> followed by \<^verbatim>\<open>f("hello")\<close>, or by \<^verbatim>\<open>f(7)\<close>. A call
  that stands alone as a statement is parsed as a \<^verbatim>\<open>print\<close> of its value.
\<close>

definition capture_f :: FuncDef where
  "capture_f = \<lparr>fname = ''f'', params = [''s''], body = N_STMT_LIST [N_STMT_PRINT (N_EXPR_VAR ''s'')]\<rparr>"

definition capture_state :: State_h where
  "capture_state = (init_state_h [])\<lparr>func_table_h := [capture_f]\<rparr>"

definition capture_prog :: "Node \<Rightarrow> Node" where
  "capture_prog arg = N_STMT_LIST
     [N_STMT_FUNCDEF ''f'' [''s''] (N_STMT_LIST [N_STMT_PRINT (N_EXPR_VAR ''s'')]),
      N_STMT_PRINT (N_EXPR_CALL ''f'' [arg])]"

section \<open>The evaluator on contents follows the evaluator with the heap\<close>

text \<open>
  Every run of the evaluator with the heap that returns (no \<^verbatim>\<open>exit\<close>, no use of a freed
  block) is a run of the evaluator on contents: the two return related values in related
  states. A value with a pointer is related to a value with a content when type and number
  agree and the block of the pointer holds that content or has been freed.
\<close>

definition hext :: "block list \<Rightarrow> block list \<Rightarrow> bool" where
  "hext h h' \<longleftrightarrow> length h \<le> length h' \<and> (\<forall>a<length h. h' ! a = h ! a \<or> h' ! a = Freed)"

definition vrel :: "block list \<Rightarrow> Value_h \<Rightarrow> Value \<Rightarrow> bool" where
  "vrel h vh v \<longleftrightarrow> vtype_h vh = vtype v \<and> num_h vh = num v \<and>
     (case str_h vh of
        None \<Rightarrow> str v = None
      | Some a \<Rightarrow> a < length h \<and> (\<exists>s. str v = Some s \<and> (h ! a = Live s \<or> h ! a = Freed)))"

definition screl :: "block list \<Rightarrow> Scope_h \<Rightarrow> Scope \<Rightarrow> bool" where
  "screl h sh s = list_all2 (\<lambda>x y. fst x = fst y \<and> vrel h (snd x) (snd y)) sh s"

definition strel :: "State_h \<Rightarrow> State \<Rightarrow> bool" where
  "strel sth st \<longleftrightarrow> list_all2 (screl (heap sth)) (scopes_h sth) (scopes st) \<and>
     func_table_h sth = func_table st \<and> stdout_h sth = stdout st \<and> stdin_h sth = stdin st"

text \<open>A step that changes the heap only, by allocating and freeing.\<close>

definition hstep :: "State_h \<Rightarrow> State_h \<Rightarrow> bool" where
  "hstep sth sth' \<longleftrightarrow> hext (heap sth) (heap sth') \<and> scopes_h sth' = scopes_h sth \<and>
     func_table_h sth' = func_table_h sth \<and> stdout_h sth' = stdout_h sth \<and> stdin_h sth' = stdin_h sth"

lemma hext_refl [simp]: "hext h h"
  by (simp add: hext_def)

lemma hext_trans: "hext a b \<Longrightarrow> hext b c \<Longrightarrow> hext a c"
  unfolding hext_def
  by (metis (no_types, lifting) le_trans less_le_trans)

lemma hext_append [simp]: "hext h (h @ bs)"
  by (simp add: hext_def nth_append)

lemma hext_free [simp]: "hext h (h[a := Freed])"
proof -
  have "h[a := Freed] ! b = h ! b \<or> h[a := Freed] ! b = Freed" if "b < length h" for b
    using that by (cases "b = a") simp_all
  then show ?thesis
    by (simp add: hext_def)
qed

lemma vrel_mono: "vrel h vh v \<Longrightarrow> hext h h' \<Longrightarrow> vrel h' vh v"
  unfolding vrel_def hext_def
  by (auto split: option.splits)

lemma screl_mono: "screl h sh s \<Longrightarrow> hext h h' \<Longrightarrow> screl h' sh s"
  unfolding screl_def
  by (erule list_all2_mono) (auto intro: vrel_mono)

lemma scopes_mono:
  "list_all2 (screl h) ssh ss \<Longrightarrow> hext h h' \<Longrightarrow> list_all2 (screl h') ssh ss"
  by (erule list_all2_mono) (auto intro: screl_mono)

lemma hstep_refl [simp]: "hstep st st"
  by (simp add: hstep_def)

lemma hstep_trans: "hstep a b \<Longrightarrow> hstep b c \<Longrightarrow> hstep a c"
  unfolding hstep_def by (auto intro: hext_trans)

lemma strel_hstep: "strel sth st \<Longrightarrow> hstep sth sth' \<Longrightarrow> strel sth' st"
  unfolding strel_def hstep_def by (auto intro: scopes_mono)

lemma hstep_hext: "hstep a b \<Longrightarrow> hext (heap a) (heap b)"
  by (simp add: hstep_def)

subsection \<open>Blocks and values\<close>

lemma strdup_hstep: "hstep st (snd (strdup s st))"
  by (simp add: strdup_def hstep_def)

lemma strdup_vrel: "vrel (heap (snd (strdup s st))) (str_value_h (fst (strdup s st))) (str_value s)"
  by (simp add: strdup_def vrel_def str_value_h_def str_value_def)

lemma free_h_hstep: "free_h a st = Inr st' \<Longrightarrow> hstep st st'"
  by (auto simp add: free_h_def hstep_def split: if_splits block.splits)

lemma value_free_hstep: "value_free v st = Inr st' \<Longrightarrow> hstep st st'"
  by (auto simp add: value_free_def free_h_hstep split: if_splits option.splits)

lemma deref_Inr: "deref a st = Inr s \<Longrightarrow> a < length (heap st) \<and> heap st ! a = Live s"
  by (auto simp add: deref_def split: if_splits block.splits)

lemma value_dup_sim:
  assumes "value_dup vh st = Inr (vh', st')" and "vrel (heap st) vh v"
  shows "hstep st st' \<and> vrel (heap st') vh' v"
proof (cases "vtype_h vh = VAL_STR \<and> str_h vh \<noteq> None")
  case False
  then have "vh' = vh" "st' = st"
    using assms(1) by (auto simp add: value_dup_def split: if_splits option.splits)
  then show ?thesis
    using assms(2) by simp
next
  case True
  then obtain a where a: "str_h vh = Some a" and t: "vtype_h vh = VAL_STR"
    by auto
  from assms(1) obtain s where d: "deref a st = Inr s"
    and r: "vh' = vh\<lparr>str_h := Some (fst (strdup s st))\<rparr>" "st' = snd (strdup s st)"
    by (auto simp add: value_dup_def a t split: sum.splits)
  have "str v = Some s"
    using assms(2) deref_Inr [OF d] a by (auto simp add: vrel_def)
  then have "vrel (heap st') vh' v"
    using assms(2) r by (simp add: vrel_def strdup_def)
  then show ?thesis
    using r strdup_hstep by simp
qed

subsection \<open>Scopes\<close>

lemma find_var_sim:
  assumes "screl h sh s"
  shows "rel_option (vrel h) (find_var_h x sh) (find_var x s)"
  using assms unfolding screl_def
  by (induction sh s rule: list_all2_induct) auto

lemma find_chain_sim:
  assumes "list_all2 (screl h) ssh ss"
  shows "rel_option (vrel h) (find_chain_h x ssh) (find_chain x ss)"
  using assms
proof (induction ssh ss rule: list_all2_induct)
  case Nil
  then show ?case by simp
next
  case (Cons sh ssh s ss)
  from find_var_sim [OF Cons.hyps(1), of x] show ?case
    using Cons.IH by (cases "find_var_h x sh"; cases "find_var x s") auto
qed

lemma var_get_sim:
  assumes "list_all2 (screl h) ssh ss"
  shows "rel_option (vrel h) (var_get_h x ssh) (var_get x ss)"
proof -
  have l: "length ssh = length ss"
    using assms by (rule list_all2_lengthD)
  have c: "rel_option (vrel h) (find_chain_h x ssh) (find_chain x ss)"
    using assms by (rule find_chain_sim)
  show ?thesis
  proof (cases "ssh = []")
    case True
    then show ?thesis
      using l by (simp add: var_get_h_def var_get_def)
  next
    case False
    then have n: "ss \<noteq> []"
      using l by auto
    have "screl h (last ssh) (last ss)"
      using assms False n l by (simp add: last_conv_nth list_all2_nthD)
    from find_var_sim [OF this, of x] show ?thesis
      using c l False n
      by (cases "find_chain_h x ssh"; cases "find_chain x ss") (auto simp add: var_get_h_def var_get_def)
  qed
qed

lemma overwrite_sim:
  assumes "screl h sh s" and "vrel h vh v"
  shows "screl h (overwrite_h x vh sh) (overwrite x v s)"
  using assms unfolding screl_def
  by (induction sh s rule: list_all2_induct) auto

lemma var_set_sim:
  assumes "var_set_h x vh sth = Inr sth'" and "strel sth st" and "vrel (heap sth) vh v"
  shows "strel sth' (st\<lparr>scopes := var_set x v (scopes st)\<rparr>) \<and> hext (heap sth) (heap sth')"
proof -
  from assms(1) obtain sh resth where sh: "scopes_h sth = sh # resth"
    by (cases "scopes_h sth") (auto simp add: var_set_h_def)
  have r: "list_all2 (screl (heap sth)) (scopes_h sth) (scopes st)"
    using assms(2) by (simp add: strel_def)
  then obtain s rest where s: "scopes st = s # rest" and h: "screl (heap sth) sh s"
    and t: "list_all2 (screl (heap sth)) resth rest"
    using sh by (cases "scopes st") auto
  from find_var_sim [OF h, of x] show ?thesis
  proof (cases "find_var_h x sh")
    case None
    then have n: "find_var x s = None"
      using find_var_sim [OF h, of x] by (cases "find_var x s") auto
    have "sth' = sth\<lparr>scopes_h := ((x, vh) # sh) # resth\<rparr>"
      using assms(1) None by (simp add: var_set_h_def sh)
    then show ?thesis
      using n s h t assms(2,3) by (simp add: strel_def var_set_def screl_def)
  next
    case (Some old)
    then obtain oldv where n: "find_var x s = Some oldv"
      using find_var_sim [OF h, of x] by (cases "find_var x s") auto
    from assms(1) Some obtain st1 where f: "value_free old sth = Inr st1"
      and e: "sth' = st1\<lparr>scopes_h := overwrite_h x vh sh # resth\<rparr>"
      by (auto simp add: var_set_h_def sh split: sum.splits)
    have hs: "hstep sth st1"
      using f by (rule value_free_hstep)
    then have x: "hext (heap sth) (heap st1)"
      by (rule hstep_hext)
    have "screl (heap st1) (overwrite_h x vh sh) (overwrite x v s)"
      using overwrite_sim screl_mono [OF h x] vrel_mono [OF assms(3) x] by blast
    moreover have "list_all2 (screl (heap st1)) resth rest"
      using scopes_mono [OF t x] .
    ultimately show ?thesis
      using e n s x hs assms(2) by (simp add: strel_def var_set_def hstep_def)
  qed
qed


lemma strel_heap:
  "strel sth st \<Longrightarrow> hext (heap sth) (heap sth') \<Longrightarrow> scopes_h sth' = scopes_h sth \<Longrightarrow>
   func_table_h sth' = func_table_h sth \<Longrightarrow> stdout_h sth' = stdout_h sth \<Longrightarrow>
   stdin_h sth' = stdin_h sth \<Longrightarrow> strel sth' st"
  by (rule strel_hstep) (simp_all add: hstep_def)

lemma bind_params_sim:
  assumes "bind_params_h ps vhs sth = Inr sth'" and "strel sth st"
    and "list_all2 (vrel (heap sth)) vhs vs"
  shows "strel sth' (st\<lparr>scopes := bind_params ps vs (scopes st)\<rparr>) \<and> hext (heap sth) (heap sth')"
  using assms
proof (induction ps vhs sth arbitrary: st vs rule: bind_params_h.induct)
  case (1 p ps vh vhs sth)
  from "1.prems"(3) obtain v vs' where vs: "vs = v # vs'" and v: "vrel (heap sth) vh v"
    and r: "list_all2 (vrel (heap sth)) vhs vs'"
    by (cases vs) auto
  from "1.prems"(1) obtain st1 st2 where a: "var_set_h p vh sth = Inr st1"
    and b: "value_free vh st1 = Inr st2" and c: "bind_params_h ps vhs st2 = Inr sth'"
    by (auto split: sum.splits)
  from var_set_sim [OF a "1.prems"(2) v]
  have s1: "strel st1 (st\<lparr>scopes := var_set p v (scopes st)\<rparr>)" and h1: "hext (heap sth) (heap st1)"
    by simp_all
  have h2: "hstep st1 st2"
    using b by (rule value_free_hstep)
  have s2: "strel st2 (st\<lparr>scopes := var_set p v (scopes st)\<rparr>)"
    using s1 h2 by (rule strel_hstep)
  have h12: "hext (heap sth) (heap st2)"
    using h1 hstep_hext [OF h2] by (rule hext_trans)
  have r2: "list_all2 (vrel (heap st2)) vhs vs'"
    using r h12 by (auto elim!: list_all2_mono intro: vrel_mono)
  from "1.IH" [OF a b c s2 r2]
  have "strel sth' (st\<lparr>scopes := bind_params ps vs' (var_set p v (scopes st))\<rparr>)"
    and "hext (heap st2) (heap sth')"
    by simp_all
  then show ?case
    using vs h12 hext_trans by auto
qed simp_all

lemma free_vars_hstep: "free_vars vs st = Inr st' \<Longrightarrow> hstep st st'"
proof (induction vs arbitrary: st)
  case Nil
  then show ?case by simp
next
  case (Cons a vs)
  obtain n v where a: "a = (n, v)"
    by (cases a)
  from Cons.prems obtain st0 where f: "value_free v st = Inr st0" and r: "free_vars vs st0 = Inr st'"
    by (auto simp add: a split: sum.splits)
  show ?case
    using value_free_hstep [OF f] Cons.IH [OF r] by (rule hstep_trans)
qed

lemma pop_scope_sim:
  assumes "pop_scope_h sth = Inr sth'" and "strel sth st"
  shows "strel sth' (st\<lparr>scopes := pop_scope (scopes st)\<rparr>) \<and> hext (heap sth) (heap sth')"
proof (cases "scopes_h sth")
  case Nil
  then have "sth' = sth" "scopes st = []"
    using assms by (auto simp add: pop_scope_h_def strel_def)
  then show ?thesis
    using assms(2) by (simp add: pop_scope_def strel_def)
next
  case (Cons sh resth)
  from assms(1) obtain st0 where f: "free_vars sh sth = Inr st0" and e: "sth' = st0\<lparr>scopes_h := resth\<rparr>"
    by (auto simp add: pop_scope_h_def Cons split: sum.splits)
  have hs: "hstep sth st0"
    using f by (rule free_vars_hstep)
  have s0: "strel st0 st"
    using assms(2) hs by (rule strel_hstep)
  obtain s rest where s: "scopes st = s # rest"
    using s0 hs Cons by (cases "scopes st") (auto simp add: strel_def hstep_def)
  show ?thesis
    using s0 hs Cons s e by (auto simp add: strel_def hstep_def pop_scope_def)
qed

lemma push_scope_sim:
  "strel sth st \<Longrightarrow> strel (push_scope_h sth) (st\<lparr>scopes := push_scope (scopes st)\<rparr>)"
  by (simp add: strel_def push_scope_h_def push_scope_def screl_def)

lemma operand_str_sim:
  assumes "operand_str vh st = Inr s" and "vrel (heap st) vh v"
  shows "s = (if vtype v = VAL_STR then (case str v of Some s \<Rightarrow> s | None \<Rightarrow> []) else fmt_g (num v))"
proof (cases "vtype_h vh = VAL_STR")
  case False
  then show ?thesis
    using assms by (auto simp add: operand_str_def vrel_def)
next
  case True
  show ?thesis
  proof (cases "str_h vh")
    case None
    then show ?thesis
      using assms True by (auto simp add: operand_str_def vrel_def)
  next
    case (Some a)
    then have "deref a st = Inr s"
      using assms(1) True by (simp add: operand_str_def)
    from deref_Inr [OF this] show ?thesis
      using assms(2) True Some by (auto simp add: vrel_def)
  qed
qed

lemma num_value_vrel [simp]: "vrel h (num_value_h d) (num_value d)"
  by (simp add: vrel_def num_value_h_def num_value_def)

lemma none_value_vrel [simp]: "vrel h none_value_h none_value"
  by (simp add: vrel_def none_value_h_def none_value_def)

lemma num_binary_sim:
  assumes "num_binary op (num l) (num r) = Inr vh" and "vtype l = VAL_NUM" and "vtype r = VAL_NUM"
  shows "\<exists>v. eval_binary op l r = Inr v \<and> vrel h vh v"
  using assms
  by (cases op) (auto simp add: num_binary_def eval_binary_def split: if_splits)

lemma eval_binary_sim:
  assumes "eval_binary_h op lh rh sth = Inr (vh, sth')"
    and "vrel (heap sth) lh l" and "vrel (heap sth) rh r"
  shows "\<exists>v. eval_binary op l r = Inr v \<and> vrel (heap sth') vh v \<and> hstep sth sth'"
proof (cases "op = T_PLUS \<and> (vtype_h lh = VAL_STR \<or> vtype_h rh = VAL_STR)")
  case True
  from assms(1) True obtain lstr rstr st1 where
    a: "operand_str lh sth = Inr lstr" and b: "operand_str rh sth = Inr rstr" and
    c: "value_free lh (snd (strdup (lstr @ rstr) sth)) = Inr st1" and
    d: "value_free rh st1 = Inr sth'" and
    e: "vh = str_value_h (fst (strdup (lstr @ rstr) sth))"
    by (auto simp add: eval_binary_h_def split: sum.splits)
  have t: "op = T_PLUS \<and> (vtype l = VAL_STR \<or> vtype r = VAL_STR)"
    using True assms(2,3) by (auto simp add: vrel_def)
  have v: "eval_binary op l r = Inr (str_value (lstr @ rstr))"
    using t operand_str_sim [OF a assms(2)] operand_str_sim [OF b assms(3)]
    by (simp add: eval_binary_def Let_def)
  have h1: "hstep (snd (strdup (lstr @ rstr) sth)) sth'"
    using value_free_hstep [OF c] value_free_hstep [OF d] by (rule hstep_trans)
  have "vrel (heap sth') vh (str_value (lstr @ rstr))"
    using strdup_vrel [of "lstr @ rstr" sth] hstep_hext [OF h1] e by (auto intro: vrel_mono)
  moreover have "hstep sth sth'"
    using strdup_hstep h1 by (rule hstep_trans)
  ultimately show ?thesis
    using v by blast
next
  case False
  then have n: "vtype_h lh = VAL_NUM" "vtype_h rh = VAL_NUM"
    using assms(1) by (auto simp add: eval_binary_h_def split: if_splits sum.splits)
  from assms(1) False n obtain st1 where
    a: "num_binary op (num_h lh) (num_h rh) = Inr vh" and
    c: "value_free lh sth = Inr st1" and d: "value_free rh st1 = Inr sth'"
    by (auto simp add: eval_binary_h_def split: sum.splits)
  have t: "vtype l = VAL_NUM" "vtype r = VAL_NUM" "num_h lh = num l" "num_h rh = num r"
    using n assms(2,3) by (auto simp add: vrel_def)
  from num_binary_sim [OF a [unfolded t] t(1,2)] obtain v where
    "eval_binary op l r = Inr v" "vrel (heap sth') vh v"
    by blast
  moreover have "hstep sth sth'"
    using value_free_hstep [OF c] value_free_hstep [OF d] by (rule hstep_trans)
  ultimately show ?thesis
    by blast
qed

lemma print_sim:
  assumes "print_h vh sth = Inr sth'" and "vrel (heap sth) vh v" and "strel sth st"
  shows "strel sth' (st\<lparr>stdout := stdout st @ print_value v\<rparr>) \<and> hext (heap sth) (heap sth')"
proof -
  have "\<exists>s. value_free vh (sth\<lparr>stdout_h := stdout_h sth @ s\<rparr>) = Inr sth' \<and> s = print_value v"
  proof (cases "vtype_h vh")
    case VAL_NUM
    then show ?thesis
      using assms(1,2) by (auto simp add: print_h_def print_value_def vrel_def)
  next
    case VAL_STR
    show ?thesis
    proof (cases "str_h vh")
      case None
      then show ?thesis
        using assms(1,2) VAL_STR by (auto simp add: print_h_def print_value_def vrel_def)
    next
      case (Some a)
      from assms(1) VAL_STR Some obtain s where d: "deref a sth = Inr s"
        and f: "value_free vh (sth\<lparr>stdout_h := stdout_h sth @ s @ [LF]\<rparr>) = Inr sth'"
        by (auto simp add: print_h_def split: sum.splits)
      from deref_Inr [OF d] have "str v = Some s"
        using assms(2) Some by (auto simp add: vrel_def)
      then show ?thesis
        using f VAL_STR assms(2) by (auto simp add: print_value_def vrel_def)
    qed
  next
    case VAL_NONE
    then show ?thesis
      using assms(1,2) by (auto simp add: print_h_def print_value_def vrel_def)
  qed
  then obtain s where f: "value_free vh (sth\<lparr>stdout_h := stdout_h sth @ s\<rparr>) = Inr sth'"
    and s: "s = print_value v"
    by blast
  have "strel (sth\<lparr>stdout_h := stdout_h sth @ s\<rparr>) (st\<lparr>stdout := stdout st @ print_value v\<rparr>)"
    using assms(3) s by (simp add: strel_def)
  then show ?thesis
    using strel_hstep value_free_hstep [OF f] hstep_hext [OF value_free_hstep [OF f]] by auto
qed

lemma return_sim:
  assumes "return_h vh sth = Inr (v', frh', sth')" and "vrel (heap sth) vh v"
  shows "fst frh' \<and> vrel (heap sth') v' v \<and> vrel (heap sth') (snd frh') v \<and> hstep sth sth'"
proof -
  from assms(1) obtain rv st1 st2 where a: "value_dup vh sth = Inr (rv, st1)"
    and b: "value_free vh st1 = Inr st2" and c: "value_dup rv st2 = Inr (v', sth')"
    and d: "frh' = (True, rv)"
    by (auto simp add: return_h_def split: sum.splits prod.splits)
  from value_dup_sim [OF a assms(2)] have 1: "hstep sth st1" "vrel (heap st1) rv v"
    by simp_all
  have 2: "hstep st1 st2"
    using b by (rule value_free_hstep)
  have "vrel (heap st2) rv v"
    using 1(2) hstep_hext [OF 2] by (rule vrel_mono)
  from value_dup_sim [OF c this] have 3: "hstep st2 sth'" "vrel (heap sth') v' v"
    by simp_all
  have "vrel (heap sth') rv v"
    using \<open>vrel (heap st2) rv v\<close> hstep_hext [OF 3(1)] by (rule vrel_mono)
  then show ?thesis
    using d 1 2 3 hstep_trans by (metis fst_conv snd_conv)
qed

lemma stop_sim:
  assumes "stop_h vh frh sth = Inr (rv, frh', sth')" and "vrel (heap sth) (snd frh) r"
  shows "frh' = frh \<and> vrel (heap sth') rv r \<and> hstep sth sth'"
proof -
  from assms(1) obtain st1 where a: "value_dup (snd frh) sth = Inr (rv, st1)"
    and b: "value_free vh st1 = Inr sth'" and c: "frh' = frh"
    by (auto simp add: stop_h_def split: sum.splits prod.splits)
  from value_dup_sim [OF a assms(2)] have 1: "hstep sth st1" "vrel (heap st1) rv r"
    by simp_all
  have 2: "hstep st1 sth'"
    using b by (rule value_free_hstep)
  show ?thesis
    using c 1 2 hstep_trans vrel_mono hstep_hext by blast
qed


lemma call_return_sim:
  assumes "call_return_h rh frh sth = Inr (vh, sth')" and "strel sth st"
    and "vrel (heap sth) rh r" and "fst frh = fst fr" and "vrel (heap sth) (snd frh) (snd fr)"
  shows "strel sth' (call_exit st) \<and> vrel (heap sth') vh (if fst fr then snd fr else r) \<and>
     hext (heap sth) (heap sth')"
proof -
  from assms(1) obtain st1 where p: "pop_scope_h sth = Inr st1"
    by (auto simp add: call_return_h_def split: sum.splits)
  from pop_scope_sim [OF p assms(2)] have s1: "strel st1 (call_exit st)"
    and h1: "hext (heap sth) (heap st1)"
    by (simp_all add: call_exit_def)
  have r1: "vrel (heap st1) rh r" "vrel (heap st1) (snd frh) (snd fr)"
    using assms(3,5) h1 by (auto intro: vrel_mono)
  show ?thesis
  proof (cases "fst frh")
    case True
    from assms(1) p True obtain st2 st3 where a: "value_dup (snd frh) st1 = Inr (vh, st2)"
      and b: "value_free rh st2 = Inr st3" and c: "value_free (snd frh) st3 = Inr sth'"
      by (auto simp add: call_return_h_def split: sum.splits prod.splits)
    from value_dup_sim [OF a r1(2)] have 1: "hstep st1 st2" "vrel (heap st2) vh (snd fr)"
      by simp_all
    have 2: "hstep st2 sth'"
      using value_free_hstep [OF b] value_free_hstep [OF c] by (rule hstep_trans)
    have 3: "hstep st1 sth'"
      using 1(1) 2 by (rule hstep_trans)
    show ?thesis
      using True assms(4) strel_hstep [OF s1 3] vrel_mono [OF 1(2) hstep_hext [OF 2]]
        hext_trans [OF h1 hstep_hext [OF 3]] by simp
  next
    case False
    from assms(1) p False have a: "value_free (snd frh) st1 = Inr sth'" and b: "vh = rh"
      by (auto simp add: call_return_h_def split: sum.splits)
    have 3: "hstep st1 sth'"
      using a by (rule value_free_hstep)
    show ?thesis
      using False assms(4) b strel_hstep [OF s1 3] vrel_mono [OF r1(1) hstep_hext [OF 3]]
        hext_trans [OF h1 hstep_hext [OF 3]] by simp
  qed
qed

lemma read_sim:
  assumes "read_h name buf conv sth = Inr (vh, sth')" and "strel sth st"
  shows "strel sth' (st\<lparr>scopes := var_set name (case conv of None \<Rightarrow> str_value buf | Some val \<Rightarrow> num_value val) (scopes st)\<rparr>)
     \<and> vrel (heap sth') vh (case conv of None \<Rightarrow> str_value buf | Some val \<Rightarrow> num_value val)
     \<and> hext (heap sth) (heap sth')"
proof (cases conv)
  case None
  let ?a = "fst (strdup buf sth)" and ?s0 = "snd (strdup buf sth)"
  from assms(1) None obtain st1 where a: "var_set_h name (str_value_h ?a) ?s0 = Inr st1"
    and b: "value_dup (str_value_h ?a) st1 = Inr (vh, sth')"
    by (auto simp add: read_h_def split: sum.splits)
  have s0: "strel ?s0 st"
    using assms(2) strdup_hstep by (rule strel_hstep)
  from var_set_sim [OF a s0 strdup_vrel]
  have s1: "strel st1 (st\<lparr>scopes := var_set name (str_value buf) (scopes st)\<rparr>)"
    and h1: "hext (heap ?s0) (heap st1)"
    by simp_all
  have "vrel (heap st1) (str_value_h ?a) (str_value buf)"
    using strdup_vrel h1 by (rule vrel_mono)
  from value_dup_sim [OF b this] have 2: "hstep st1 sth'" "vrel (heap sth') vh (str_value buf)"
    by simp_all
  have "hext (heap sth) (heap sth')"
    using hext_trans [OF hstep_hext [OF strdup_hstep] hext_trans [OF h1 hstep_hext [OF 2(1)]]] .
  then show ?thesis
    using None strel_hstep [OF s1 2(1)] 2(2) by simp
next
  case (Some val)
  from assms(1) Some obtain st1 where a: "var_set_h name (num_value_h val) sth = Inr st1"
    and b: "vh = num_value_h val" "sth' = st1"
    by (auto simp add: read_h_def split: sum.splits)
  from var_set_sim [OF a assms(2) num_value_vrel] show ?thesis
    using Some b by simp
qed

subsection \<open>The simulation, by induction on the fuel\<close>

definition frrel :: "block list \<Rightarrow> bool \<times> Value_h \<Rightarrow> bool \<times> Value \<Rightarrow> bool" where
  "frrel h frh fr \<longleftrightarrow> fst frh = fst fr \<and> vrel h (snd frh) (snd fr)"

lemma frrel_mono: "frrel h frh fr \<Longrightarrow> hext h h' \<Longrightarrow> frrel h' frh fr"
  by (auto simp add: frrel_def intro: vrel_mono)

definition S_expr :: "nat \<Rightarrow> bool" where
  "S_expr k = (\<forall>n sth st vh sth'.
     eval_expr_h k n sth = Some (Inr (vh, sth')) \<longrightarrow> strel sth st \<longrightarrow>
     (\<exists>v st'. eval_expr k n st = Some (Inr (v, st')) \<and> vrel (heap sth') vh v \<and> strel sth' st' \<and>
        hext (heap sth) (heap sth')))"

definition S_args :: "nat \<Rightarrow> bool" where
  "S_args k = (\<forall>as sth st vhs sth'.
     eval_args_h k as sth = Some (Inr (vhs, sth')) \<longrightarrow> strel sth st \<longrightarrow>
     (\<exists>vs st'. eval_args k as st = Some (Inr (vs, st')) \<and> list_all2 (vrel (heap sth')) vhs vs \<and>
        strel sth' st' \<and> hext (heap sth) (heap sth')))"

definition S_stmt :: "nat \<Rightarrow> bool" where
  "S_stmt k = (\<forall>n frh fr sth st vh frh' sth'.
     eval_stmt_h k n frh sth = Some (Inr (vh, frh', sth')) \<longrightarrow> strel sth st \<longrightarrow>
     frrel (heap sth) frh fr \<longrightarrow>
     (\<exists>v fr' st'. eval_stmt k n fr st = Some (Inr (v, fr', st')) \<and> vrel (heap sth') vh v \<and>
        frrel (heap sth') frh' fr' \<and> strel sth' st' \<and> hext (heap sth) (heap sth')))"

definition S_list :: "nat \<Rightarrow> bool" where
  "S_list k = (\<forall>cs lh l frh fr sth st vh frh' sth'.
     eval_list_h k cs lh frh sth = Some (Inr (vh, frh', sth')) \<longrightarrow> strel sth st \<longrightarrow>
     frrel (heap sth) frh fr \<longrightarrow> vrel (heap sth) lh l \<longrightarrow>
     (\<exists>v fr' st'. eval_list k cs l fr st = Some (Inr (v, fr', st')) \<and> vrel (heap sth') vh v \<and>
        frrel (heap sth') frh' fr' \<and> strel sth' st' \<and> hext (heap sth) (heap sth')))"

definition S_while :: "nat \<Rightarrow> bool" where
  "S_while k = (\<forall>c b rh r frh fr sth st vh frh' sth'.
     eval_while_h k c b rh frh sth = Some (Inr (vh, frh', sth')) \<longrightarrow> strel sth st \<longrightarrow>
     frrel (heap sth) frh fr \<longrightarrow> vrel (heap sth) rh r \<longrightarrow>
     (\<exists>v fr' st'. eval_while k c b r fr st = Some (Inr (v, fr', st')) \<and> vrel (heap sth') vh v \<and>
        frrel (heap sth') frh' fr' \<and> strel sth' st' \<and> hext (heap sth) (heap sth')))"

lemma S_exprD:
  "S_expr k \<Longrightarrow> eval_expr_h k n sth = Some (Inr (vh, sth')) \<Longrightarrow> strel sth st \<Longrightarrow>
   \<exists>v st'. eval_expr k n st = Some (Inr (v, st')) \<and> vrel (heap sth') vh v \<and> strel sth' st' \<and>
      hext (heap sth) (heap sth')"
  unfolding S_expr_def by blast

lemma S_argsD:
  "S_args k \<Longrightarrow> eval_args_h k as sth = Some (Inr (vhs, sth')) \<Longrightarrow> strel sth st \<Longrightarrow>
   \<exists>vs st'. eval_args k as st = Some (Inr (vs, st')) \<and> list_all2 (vrel (heap sth')) vhs vs \<and>
      strel sth' st' \<and> hext (heap sth) (heap sth')"
  unfolding S_args_def by blast

lemma S_stmtD:
  "S_stmt k \<Longrightarrow> eval_stmt_h k n frh sth = Some (Inr (vh, frh', sth')) \<Longrightarrow> strel sth st \<Longrightarrow>
   frrel (heap sth) frh fr \<Longrightarrow>
   \<exists>v fr' st'. eval_stmt k n fr st = Some (Inr (v, fr', st')) \<and> vrel (heap sth') vh v \<and>
      frrel (heap sth') frh' fr' \<and> strel sth' st' \<and> hext (heap sth) (heap sth')"
  unfolding S_stmt_def by blast

lemma S_listD:
  "S_list k \<Longrightarrow> eval_list_h k cs lh frh sth = Some (Inr (vh, frh', sth')) \<Longrightarrow> strel sth st \<Longrightarrow>
   frrel (heap sth) frh fr \<Longrightarrow> vrel (heap sth) lh l \<Longrightarrow>
   \<exists>v fr' st'. eval_list k cs l fr st = Some (Inr (v, fr', st')) \<and> vrel (heap sth') vh v \<and>
      frrel (heap sth') frh' fr' \<and> strel sth' st' \<and> hext (heap sth) (heap sth')"
  unfolding S_list_def by blast

lemma S_whileD:
  "S_while k \<Longrightarrow> eval_while_h k c b rh frh sth = Some (Inr (vh, frh', sth')) \<Longrightarrow> strel sth st \<Longrightarrow>
   frrel (heap sth) frh fr \<Longrightarrow> vrel (heap sth) rh r \<Longrightarrow>
   \<exists>v fr' st'. eval_while k c b r fr st = Some (Inr (v, fr', st')) \<and> vrel (heap sth') vh v \<and>
      frrel (heap sth') frh' fr' \<and> strel sth' st' \<and> hext (heap sth) (heap sth')"
  unfolding S_while_def by blast

lemma eval_expr_h_call_Inr:
  assumes "eval_expr_h (Suc k) (N_EXPR_CALL name args) sth = Some (Inr (vh, sth'))"
  shows "\<exists>f vhs st1 st2 rh frh st3.
      func_get name (func_table_h sth) = Some f \<and> length (params f) = length args \<and>
      eval_args_h k args sth = Some (Inr (vhs, st1)) \<and>
      bind_params_h (params f) vhs (push_scope_h st1) = Inr st2 \<and>
      eval_stmt_h k (body f) (False, none_value_h) st2 = Some (Inr (rh, frh, st3)) \<and>
      call_return_h rh frh st3 = Inr (vh, sth')"
  using assms
  by (fastforce simp add: eval_expr_h.simps split: option.splits sum.splits if_splits)

lemma eval_expr_h_binary_Inr:
  assumes "eval_expr_h (Suc k) (N_EXPR_BINARY op l r) sth = Some (Inr (vh, sth'))"
  shows "\<exists>lv st1 rv st2.
      eval_expr_h k l sth = Some (Inr (lv, st1)) \<and> eval_expr_h k r st1 = Some (Inr (rv, st2)) \<and>
      eval_binary_h op lv rv st2 = Inr (vh, sth')"
  using assms
  by (simp add: eval_expr_h.simps split: option.splits sum.splits if_splits prod.splits)

lemma S_expr_Suc:
  assumes "S_expr k" "S_args k" "S_stmt k"
  shows "S_expr (Suc k)"
  unfolding S_expr_def
proof (intro allI impI)
  fix n sth st vh sth'
  assume e: "eval_expr_h (Suc k) n sth = Some (Inr (vh, sth'))" and s: "strel sth st"
  show "\<exists>v st'. eval_expr (Suc k) n st = Some (Inr (v, st')) \<and> vrel (heap sth') vh v \<and>
      strel sth' st' \<and> hext (heap sth) (heap sth')"
  proof (cases n)
    case (N_EXPR_NUMBER d)
    then show ?thesis
      using e s by (auto simp add: eval_expr_h.simps eval_expr.simps)
  next
    case (N_EXPR_STRING w)
    then have "vh = str_value_h (fst (strdup w sth))" "sth' = snd (strdup w sth)"
      using e by (simp_all add: eval_expr_h.simps)
    then show ?thesis
      using N_EXPR_STRING s strdup_vrel [of w sth] strel_hstep [OF s strdup_hstep]
        hstep_hext [OF strdup_hstep [of sth w]]
      by (auto simp add: eval_expr.simps)
  next
    case (N_EXPR_VAR name)
    from e obtain v0 where g: "var_get_h name (scopes_h sth) = Some v0"
      and d: "value_dup v0 sth = Inr (vh, sth')"
      by (auto simp add: N_EXPR_VAR eval_expr_h.simps split: option.splits)
    have "rel_option (vrel (heap sth)) (var_get_h name (scopes_h sth)) (var_get name (scopes st))"
      using s by (intro var_get_sim) (simp add: strel_def)
    then obtain va where a: "var_get name (scopes st) = Some va" and r: "vrel (heap sth) v0 va"
      using g by (cases "var_get name (scopes st)") auto
    from value_dup_sim [OF d r] show ?thesis
      using a N_EXPR_VAR strel_hstep [OF s] hstep_hext by (auto simp add: eval_expr.simps)
  next
    case (N_EXPR_CALL name args)
    from eval_expr_h_call_Inr [OF e [unfolded N_EXPR_CALL]] obtain f vhs st1 st2 rh frh st3 where
      f: "func_get name (func_table_h sth) = Some f" and l: "length (params f) = length args" and
      a: "eval_args_h k args sth = Some (Inr (vhs, st1))" and
      b: "bind_params_h (params f) vhs (push_scope_h st1) = Inr st2" and
      c: "eval_stmt_h k (body f) (False, none_value_h) st2 = Some (Inr (rh, frh, st3))" and
      d: "call_return_h rh frh st3 = Inr (vh, sth')"
      by blast
    from S_argsD [OF assms(2) a s] obtain vs sta1 where
      a': "eval_args k args st = Some (Inr (vs, sta1))" and
      va: "list_all2 (vrel (heap st1)) vhs vs" and s1: "strel st1 sta1" and
      h1: "hext (heap sth) (heap st1)"
      by blast
    have va': "list_all2 (vrel (heap (push_scope_h st1))) vhs vs"
      using va by (simp add: push_scope_h_def)
    from bind_params_sim [OF b push_scope_sim [OF s1] va']
    have s2: "strel st2 (call_entry f vs sta1)" and h2: "hext (heap st1) (heap st2)"
      by (simp_all add: call_entry_def push_scope_h_def)
    have fr0: "frrel (heap st2) (False, none_value_h) (False, none_value)"
      by (simp add: frrel_def)
    from S_stmtD [OF assms(3) c s2 fr0] obtain r fr sta3 where
      c': "eval_stmt k (body f) (False, none_value) (call_entry f vs sta1) = Some (Inr (r, fr, sta3))" and
      vr: "vrel (heap st3) rh r" and fr: "frrel (heap st3) frh fr" and s3: "strel st3 sta3" and
      h3: "hext (heap st2) (heap st3)"
      by blast
    from call_return_sim [OF d s3 vr] fr
    have s4: "strel sth' (call_exit sta3)" and v4: "vrel (heap sth') vh (if fst fr then snd fr else r)"
      and h4: "hext (heap st3) (heap sth')"
      by (simp_all add: frrel_def)
    have f': "func_get name (func_table st) = Some f"
      using f s by (simp add: strel_def)
    have "eval_expr (Suc k) (N_EXPR_CALL name args) st
        = Some (Inr (if fst fr then snd fr else r, call_exit sta3))"
      using f' l a' c' by (rule eval_expr_call)
    moreover have "hext (heap sth) (heap sth')"
      using h1 h2 h3 h4 hext_trans by blast
    ultimately show ?thesis
      using N_EXPR_CALL s4 v4 by blast
  next
    case (N_EXPR_BINARY op l r)
    from eval_expr_h_binary_Inr [OF e [unfolded N_EXPR_BINARY]] obtain lv st1 rv st2 where
      a: "eval_expr_h k l sth = Some (Inr (lv, st1))" and
      b: "eval_expr_h k r st1 = Some (Inr (rv, st2))" and
      c: "eval_binary_h op lv rv st2 = Inr (vh, sth')"
      by blast
    from S_exprD [OF assms(1) a s] obtain lva sta1 where
      a': "eval_expr k l st = Some (Inr (lva, sta1))" and v1: "vrel (heap st1) lv lva" and
      s1: "strel st1 sta1" and h1: "hext (heap sth) (heap st1)"
      by blast
    from S_exprD [OF assms(1) b s1] obtain rva sta2 where
      b': "eval_expr k r sta1 = Some (Inr (rva, sta2))" and v2: "vrel (heap st2) rv rva" and
      s2: "strel st2 sta2" and h2: "hext (heap st1) (heap st2)"
      by blast
    from eval_binary_sim [OF c vrel_mono [OF v1 h2] v2] obtain v where
      c': "eval_binary op lva rva = Inr v" and v3: "vrel (heap sth') vh v" and h3: "hstep st2 sth'"
      by blast
    have "eval_expr (Suc k) (N_EXPR_BINARY op l r) st = Some (Inr (v, sta2))"
      using eval_expr_binary [OF a' b', of op] c' by simp
    moreover have "hext (heap sth) (heap sth')"
      using h1 h2 hstep_hext [OF h3] hext_trans by blast
    ultimately show ?thesis
      using N_EXPR_BINARY v3 strel_hstep [OF s2 h3] by blast
  qed (use e s in \<open>auto simp add: eval_expr_h.simps eval_expr.simps\<close>)
qed

lemma S_args_Suc:
  assumes "S_expr k" "S_args k"
  shows "S_args (Suc k)"
  unfolding S_args_def
proof (intro allI impI)
  fix as sth st vhs sth'
  assume e: "eval_args_h (Suc k) as sth = Some (Inr (vhs, sth'))" and s: "strel sth st"
  show "\<exists>vs st'. eval_args (Suc k) as st = Some (Inr (vs, st')) \<and>
      list_all2 (vrel (heap sth')) vhs vs \<and> strel sth' st' \<and> hext (heap sth) (heap sth')"
  proof (cases as)
    case Nil
    then show ?thesis
      using e s by (auto simp add: eval_args_h.simps eval_args.simps)
  next
    case (Cons a rest)
    from e obtain v st1 vs' where
      a: "eval_expr_h k a sth = Some (Inr (v, st1))" and
      b: "eval_args_h k rest st1 = Some (Inr (vs', sth'))" and c: "vhs = v # vs'"
      by (auto simp add: Cons eval_args_h.simps split: option.splits sum.splits)
    from S_exprD [OF assms(1) a s] obtain va sta1 where
      a': "eval_expr k a st = Some (Inr (va, sta1))" and v1: "vrel (heap st1) v va" and
      s1: "strel st1 sta1" and h1: "hext (heap sth) (heap st1)"
      by blast
    from S_argsD [OF assms(2) b s1] obtain vsa sta2 where
      b': "eval_args k rest sta1 = Some (Inr (vsa, sta2))" and
      v2: "list_all2 (vrel (heap sth')) vs' vsa" and s2: "strel sth' sta2" and
      h2: "hext (heap st1) (heap sth')"
      by blast
    have "eval_args (Suc k) (a # rest) st = Some (Inr (va # vsa, sta2))"
      using a' b' by (simp add: eval_args.simps)
    then show ?thesis
      using Cons c v2 vrel_mono [OF v1 h2] s2 hext_trans [OF h1 h2] by auto
  qed
qed


lemma eval_stmt_h_if_Inr:
  assumes "eval_stmt_h (Suc k) (N_STMT_IF c b eb) frh sth = Some (Inr (vh, frh', sth'))" and "\<not> fst frh"
  shows "\<exists>condv st1. eval_expr_h k c sth = Some (Inr (condv, st1)) \<and> vtype_h condv = VAL_NUM \<and>
     (if \<not> deq (num_h condv) (Fin 0) then eval_stmt_h k b frh st1 = Some (Inr (vh, frh', sth'))
      else case eb of
             Some e \<Rightarrow> eval_stmt_h k e frh st1 = Some (Inr (vh, frh', sth'))
           | None \<Rightarrow> vh = none_value_h \<and> frh' = frh \<and> sth' = st1)"
  using assms
  by (fastforce simp add: eval_stmt_h.simps split: option.splits sum.splits if_splits)

lemma S_stmt_Suc:
  assumes "S_expr k" "S_stmt k" "S_list k" "S_while k"
  shows "S_stmt (Suc k)"
  unfolding S_stmt_def
proof (intro allI impI)
  fix n frh fr sth st vh frh' sth'
  assume e: "eval_stmt_h (Suc k) n frh sth = Some (Inr (vh, frh', sth'))" and s: "strel sth st"
    and f: "frrel (heap sth) frh fr"
  show "\<exists>v fr' st'. eval_stmt (Suc k) n fr st = Some (Inr (v, fr', st')) \<and> vrel (heap sth') vh v \<and>
        frrel (heap sth') frh' fr' \<and> strel sth' st' \<and> hext (heap sth) (heap sth')"
  proof (cases "fst frh")
    case True
    then have d: "value_dup (snd frh) sth = Inr (vh, sth')" and q: "frh' = frh"
      using e by (auto simp add: eval_stmt_h.simps split: sum.splits)
    have r: "vrel (heap sth) (snd frh) (snd fr)" and t: "fst fr"
      using f True by (simp_all add: frrel_def)
    from value_dup_sim [OF d r] have h: "hstep sth sth'" and v: "vrel (heap sth') vh (snd fr)"
      by simp_all
    have "eval_stmt (Suc k) n fr st = Some (Inr (snd fr, fr, st))"
      using t by (rule eval_stmt_returned)
    then show ?thesis
      using v q frrel_mono [OF f hstep_hext [OF h]] strel_hstep [OF s h] hstep_hext [OF h] by blast
  next
    case False
    then have nf: "\<not> fst fr"
      using f by (simp add: frrel_def)
    show ?thesis
    proof (cases n)
      case (N_STMT_LIST cs)
      then have "eval_list_h k cs none_value_h frh sth = Some (Inr (vh, frh', sth'))"
        using e False by (simp add: eval_stmt_h.simps)
      from S_listD [OF assms(3) this s f none_value_vrel] show ?thesis
        using N_STMT_LIST nf by (simp add: eval_stmt.simps)
    next
      case (N_STMT_SET name ex)
      from e False obtain st1 where
        a: "eval_expr_h k ex sth = Some (Inr (vh, st1))" and
        b: "var_set_h name vh st1 = Inr sth'" and c: "frh' = frh"
        by (auto simp add: N_STMT_SET eval_stmt_h.simps split: option.splits sum.splits)
      from S_exprD [OF assms(1) a s] obtain va sta1 where
        a': "eval_expr k ex st = Some (Inr (va, sta1))" and v1: "vrel (heap st1) vh va" and
        s1: "strel st1 sta1" and h1: "hext (heap sth) (heap st1)"
        by blast
      from var_set_sim [OF b s1 v1]
      have s2: "strel sth' (sta1\<lparr>scopes := var_set name va (scopes sta1)\<rparr>)"
        and h2: "hext (heap st1) (heap sth')"
        by simp_all
      have "eval_stmt (Suc k) (N_STMT_SET name ex) fr st
          = Some (Inr (va, fr, sta1\<lparr>scopes := var_set name va (scopes sta1)\<rparr>))"
        using a' nf by (simp add: eval_stmt.simps)
      then show ?thesis
        using N_STMT_SET c s2 vrel_mono [OF v1 h2] frrel_mono [OF f hext_trans [OF h1 h2]]
          hext_trans [OF h1 h2] by blast
    next
      case (N_STMT_PRINT ex)
      from e False obtain v st1 where
        a: "eval_expr_h k ex sth = Some (Inr (v, st1))" and
        b: "print_h v st1 = Inr sth'" and c: "frh' = frh" "vh = none_value_h"
        by (auto simp add: N_STMT_PRINT eval_stmt_h.simps split: option.splits sum.splits)
      from S_exprD [OF assms(1) a s] obtain va sta1 where
        a': "eval_expr k ex st = Some (Inr (va, sta1))" and v1: "vrel (heap st1) v va" and
        s1: "strel st1 sta1" and h1: "hext (heap sth) (heap st1)"
        by blast
      from print_sim [OF b v1 s1]
      have s2: "strel sth' (sta1\<lparr>stdout := stdout sta1 @ print_value va\<rparr>)"
        and h2: "hext (heap st1) (heap sth')"
        by simp_all
      have "eval_stmt (Suc k) (N_STMT_PRINT ex) fr st
          = Some (Inr (none_value, fr, sta1\<lparr>stdout := stdout sta1 @ print_value va\<rparr>))"
        using a' nf by (simp add: eval_stmt.simps)
      then show ?thesis
        using N_STMT_PRINT c s2 frrel_mono [OF f hext_trans [OF h1 h2]] hext_trans [OF h1 h2]
          none_value_vrel by blast
    next
      case (N_STMT_READ name)
      from e False obtain buf conv rest where
        i: "stdin_h sth = (buf, conv) # rest" and
        r: "read_h name buf conv (sth\<lparr>stdin_h := rest\<rparr>) = Inr (vh, sth')" and c: "frh' = frh"
        by (auto simp add: N_STMT_READ eval_stmt_h.simps split: list.splits sum.splits)
      have i': "stdin st = (buf, conv) # rest"
        using i s by (simp add: strel_def)
      have s0: "strel (sth\<lparr>stdin_h := rest\<rparr>) (st\<lparr>stdin := rest\<rparr>)"
        using s by (simp add: strel_def)
      let ?v = "case conv of None \<Rightarrow> str_value buf | Some val \<Rightarrow> num_value val"
      from read_sim [OF r s0]
      have s2: "strel sth' (st\<lparr>stdin := rest, scopes := var_set name ?v (scopes st)\<rparr>)"
        and v2: "vrel (heap sth') vh ?v" and h2: "hext (heap sth) (heap sth')"
        by simp_all
      have "eval_stmt (Suc k) (N_STMT_READ name) fr st
          = Some (Inr (?v, fr, st\<lparr>scopes := var_set name ?v (scopes st), stdin := rest\<rparr>))"
        using i' nf by (simp add: eval_stmt.simps split: option.splits)
      then have "eval_stmt (Suc k) n fr st
          = Some (Inr (?v, fr, st\<lparr>stdin := rest, scopes := var_set name ?v (scopes st)\<rparr>))"
        using N_STMT_READ by simp
      moreover have "frrel (heap sth') frh' fr"
        using c frrel_mono [OF f h2] by simp
      ultimately show ?thesis
        using s2 v2 h2 by blast
    next
      case (N_STMT_IF c b eb)
      from eval_stmt_h_if_Inr [OF e [unfolded N_STMT_IF] False] obtain condv st1 where
        a: "eval_expr_h k c sth = Some (Inr (condv, st1))" and t: "vtype_h condv = VAL_NUM" and
        r: "if \<not> deq (num_h condv) (Fin 0) then eval_stmt_h k b frh st1 = Some (Inr (vh, frh', sth'))
            else case eb of
                   Some e \<Rightarrow> eval_stmt_h k e frh st1 = Some (Inr (vh, frh', sth'))
                 | None \<Rightarrow> vh = none_value_h \<and> frh' = frh \<and> sth' = st1"
        by blast
      from S_exprD [OF assms(1) a s] obtain ca sta1 where
        a': "eval_expr k c st = Some (Inr (ca, sta1))" and v1: "vrel (heap st1) condv ca" and
        s1: "strel st1 sta1" and h1: "hext (heap sth) (heap st1)"
        by blast
      have t': "vtype ca = VAL_NUM" "num ca = num_h condv"
        using v1 t by (simp_all add: vrel_def)
      have f1: "frrel (heap st1) frh fr"
        using f h1 by (rule frrel_mono)
      show ?thesis
      proof (cases "\<not> deq (num_h condv) (Fin 0)")
        case True
        then have "eval_stmt_h k b frh st1 = Some (Inr (vh, frh', sth'))"
          using r by simp
        from S_stmtD [OF assms(2) this s1 f1] obtain v fr' st' where
          x: "eval_stmt k b fr sta1 = Some (Inr (v, fr', st'))" "vrel (heap sth') vh v"
            "frrel (heap sth') frh' fr'" "strel sth' st'" "hext (heap st1) (heap sth')"
          by blast
        have "eval_stmt (Suc k) (N_STMT_IF c b eb) fr st = Some (Inr (v, fr', st'))"
          using a' t' True nf x(1) by (simp add: eval_stmt.simps)
        then show ?thesis
          using N_STMT_IF x hext_trans [OF h1] by blast
      next
        case z: False
        show ?thesis
        proof (cases eb)
          case None
          then have "vh = none_value_h" "frh' = frh" "sth' = st1"
            using r z by simp_all
          moreover have "eval_stmt (Suc k) (N_STMT_IF c b eb) fr st = Some (Inr (none_value, fr, sta1))"
            using a' t' z nf None by (simp add: eval_stmt.simps)
          ultimately show ?thesis
            using N_STMT_IF s1 f1 h1 none_value_vrel by blast
        next
          case (Some el)
          then have "eval_stmt_h k el frh st1 = Some (Inr (vh, frh', sth'))"
            using r z by simp
          from S_stmtD [OF assms(2) this s1 f1] obtain v fr' st' where
            x: "eval_stmt k el fr sta1 = Some (Inr (v, fr', st'))" "vrel (heap sth') vh v"
              "frrel (heap sth') frh' fr'" "strel sth' st'" "hext (heap st1) (heap sth')"
            by blast
          have "eval_stmt (Suc k) (N_STMT_IF c b eb) fr st = Some (Inr (v, fr', st'))"
            using a' t' z nf x(1) Some by (simp add: eval_stmt.simps)
          then show ?thesis
            using N_STMT_IF x hext_trans [OF h1] by blast
        qed
      qed
    next
      case (N_STMT_WHILE c b)
      then have "eval_while_h k c b none_value_h frh sth = Some (Inr (vh, frh', sth'))"
        using e False by (simp add: eval_stmt_h.simps)
      from S_whileD [OF assms(4) this s f none_value_vrel] show ?thesis
        using N_STMT_WHILE nf by (simp add: eval_stmt.simps)
    next
      case (N_STMT_FUNCDEF name ps b)
      from e False obtain fs where
        a: "func_set name ps b (func_table_h sth) = Inr fs" and
        b: "vh = none_value_h" "frh' = frh" "sth' = sth\<lparr>func_table_h := fs\<rparr>"
        by (auto simp add: N_STMT_FUNCDEF eval_stmt_h.simps split: sum.splits)
      have "eval_stmt (Suc k) (N_STMT_FUNCDEF name ps b) fr st
          = Some (Inr (none_value, fr, st\<lparr>func_table := fs\<rparr>))"
        using a s nf by (simp add: eval_stmt.simps strel_def)
      moreover have "strel sth' (st\<lparr>func_table := fs\<rparr>)"
        using s b by (simp add: strel_def)
      moreover have "frrel (heap sth') frh' fr" "hext (heap sth) (heap sth')" "vrel (heap sth') vh none_value"
        using b f by simp_all
      ultimately show ?thesis
        using N_STMT_FUNCDEF by blast
    next
      case (N_STMT_RETURN ex)
      show ?thesis
      proof (cases ex)
        case None
        then have r: "return_h (num_value_h (Fin 0)) sth = Inr (vh, frh', sth')"
          using e False N_STMT_RETURN by (simp add: eval_stmt_h.simps)
        from return_sim [OF r num_value_vrel]
        have x: "fst frh'" "vrel (heap sth') vh (num_value (Fin 0))"
          "vrel (heap sth') (snd frh') (num_value (Fin 0))" "hstep sth sth'"
          by simp_all
        have "eval_stmt (Suc k) (N_STMT_RETURN ex) fr st
            = Some (Inr (num_value (Fin 0), (True, num_value (Fin 0)), st))"
          using None nf by (simp add: eval_stmt.simps)
        moreover have "frrel (heap sth') frh' (True, num_value (Fin 0))"
          using x by (simp add: frrel_def)
        ultimately show ?thesis
          using N_STMT_RETURN x strel_hstep [OF s x(4)] hstep_hext [OF x(4)] by blast
      next
        case (Some e1)
        from e False obtain rv st1 where
          a: "eval_expr_h k e1 sth = Some (Inr (rv, st1))" and
          r: "return_h rv st1 = Inr (vh, frh', sth')"
          by (auto simp add: N_STMT_RETURN Some eval_stmt_h.simps split: option.splits sum.splits)
        from S_exprD [OF assms(1) a s] obtain va sta1 where
          a': "eval_expr k e1 st = Some (Inr (va, sta1))" and v1: "vrel (heap st1) rv va" and
          s1: "strel st1 sta1" and h1: "hext (heap sth) (heap st1)"
          by blast
        from return_sim [OF r v1]
        have x: "fst frh'" "vrel (heap sth') vh va" "vrel (heap sth') (snd frh') va" "hstep st1 sth'"
          by simp_all
        have "eval_stmt (Suc k) (N_STMT_RETURN ex) fr st = Some (Inr (va, (True, va), sta1))"
          using Some nf a' by (simp add: eval_stmt.simps)
        moreover have "frrel (heap sth') frh' (True, va)"
          using x by (simp add: frrel_def)
        ultimately show ?thesis
          using N_STMT_RETURN x strel_hstep [OF s1 x(4)] hext_trans [OF h1 hstep_hext [OF x(4)]]
          by blast
      qed
    next
      case (N_EXPR_BINARY x1 x2 x3)
      then show ?thesis
        using e s f False nf by (auto simp add: eval_stmt_h.simps eval_stmt.simps)
    next
      case (N_EXPR_NUMBER x)
      then show ?thesis
        using e s f False nf by (auto simp add: eval_stmt_h.simps eval_stmt.simps)
    next
      case (N_EXPR_STRING x)
      then show ?thesis
        using e s f False nf by (auto simp add: eval_stmt_h.simps eval_stmt.simps)
    next
      case (N_EXPR_VAR x)
      then show ?thesis
        using e s f False nf by (auto simp add: eval_stmt_h.simps eval_stmt.simps)
    next
      case (N_EXPR_CALL x1 x2)
      then show ?thesis
        using e s f False nf by (auto simp add: eval_stmt_h.simps eval_stmt.simps)
    qed
  qed
qed


lemma eval_list_h_Cons_Inr:
  assumes "eval_list_h (Suc k) (c # rest) lh frh sth = Some (Inr (vh, frh', sth'))"
  shows "\<exists>st0 v1 fr1 st1. value_free lh sth = Inr st0 \<and>
     eval_stmt_h k c frh st0 = Some (Inr (v1, fr1, st1)) \<and>
     (if fst fr1 then stop_h v1 fr1 st1 = Inr (vh, frh', sth')
      else eval_list_h k rest v1 fr1 st1 = Some (Inr (vh, frh', sth')))"
  using assms
  by (fastforce simp add: eval_list_h.simps split: option.splits sum.splits if_splits)

lemma S_list_Suc:
  assumes "S_stmt k" "S_list k"
  shows "S_list (Suc k)"
  unfolding S_list_def
proof (intro allI impI)
  fix cs lh l frh fr sth st vh frh' sth'
  assume e: "eval_list_h (Suc k) cs lh frh sth = Some (Inr (vh, frh', sth'))" and s: "strel sth st"
    and f: "frrel (heap sth) frh fr" and lr: "vrel (heap sth) lh l"
  show "\<exists>v fr' st'. eval_list (Suc k) cs l fr st = Some (Inr (v, fr', st')) \<and> vrel (heap sth') vh v \<and>
        frrel (heap sth') frh' fr' \<and> strel sth' st' \<and> hext (heap sth) (heap sth')"
  proof (cases cs)
    case Nil
    then have "vh = lh" "frh' = frh" "sth' = sth"
      using e by (simp_all add: eval_list_h.simps)
    then show ?thesis
      using Nil s f lr by (simp add: eval_list.simps)
  next
    case (Cons c rest)
    from eval_list_h_Cons_Inr [OF e [unfolded Cons]] obtain st0 v1 fr1 st1 where
      a: "value_free lh sth = Inr st0" and
      b: "eval_stmt_h k c frh st0 = Some (Inr (v1, fr1, st1))" and
      r: "if fst fr1 then stop_h v1 fr1 st1 = Inr (vh, frh', sth')
          else eval_list_h k rest v1 fr1 st1 = Some (Inr (vh, frh', sth'))"
      by blast
    have h0: "hstep sth st0"
      using a by (rule value_free_hstep)
    have s0: "strel st0 st"
      using s h0 by (rule strel_hstep)
    have f0: "frrel (heap st0) frh fr"
      using f hstep_hext [OF h0] by (rule frrel_mono)
    from S_stmtD [OF assms(1) b s0 f0] obtain va fra1 sta1 where
      b': "eval_stmt k c fr st = Some (Inr (va, fra1, sta1))" and v1: "vrel (heap st1) v1 va" and
      f1: "frrel (heap st1) fr1 fra1" and s1: "strel st1 sta1" and h1: "hext (heap st0) (heap st1)"
      by blast
    have h01: "hext (heap sth) (heap st1)"
      using hstep_hext [OF h0] h1 by (rule hext_trans)
    show ?thesis
    proof (cases "fst fr1")
      case True
      then have x: "stop_h v1 fr1 st1 = Inr (vh, frh', sth')"
        using r by simp
      have t: "fst fra1" and rr: "vrel (heap st1) (snd fr1) (snd fra1)"
        using f1 True by (simp_all add: frrel_def)
      from stop_sim [OF x rr] have y: "frh' = fr1" "vrel (heap sth') vh (snd fra1)" "hstep st1 sth'"
        by simp_all
      have "eval_list (Suc k) (c # rest) l fr st = Some (Inr (snd fra1, fra1, sta1))"
        using b' t by (rule eval_list_stops)
      moreover have "frrel (heap sth') frh' fra1"
        using y(1) frrel_mono [OF f1 hstep_hext [OF y(3)]] by simp
      ultimately show ?thesis
        using Cons y(2) strel_hstep [OF s1 y(3)] hext_trans [OF h01 hstep_hext [OF y(3)]] by blast
    next
      case False
      then have x: "eval_list_h k rest v1 fr1 st1 = Some (Inr (vh, frh', sth'))"
        using r by simp
      have t: "\<not> fst fra1"
        using f1 False by (simp add: frrel_def)
      from S_listD [OF assms(2) x s1 f1 v1] obtain v fr' st' where
        y: "eval_list k rest va fra1 sta1 = Some (Inr (v, fr', st'))" "vrel (heap sth') vh v"
          "frrel (heap sth') frh' fr'" "strel sth' st'" "hext (heap st1) (heap sth')"
        by blast
      have "eval_list (Suc k) (c # rest) l fr st = Some (Inr (v, fr', st'))"
        using b' t y(1) by (simp add: eval_list.simps)
      then show ?thesis
        using Cons y hext_trans [OF h01] by blast
    qed
  qed
qed

lemma eval_while_h_Inr:
  assumes "eval_while_h (Suc k) c b rh frh sth = Some (Inr (vh, frh', sth'))"
  shows "\<exists>condv st1. eval_expr_h k c sth = Some (Inr (condv, st1)) \<and>
     (if vtype_h condv \<noteq> VAL_NUM \<or> deq (num_h condv) (Fin 0) \<or> fst frh
      then value_free condv st1 = Inr sth' \<and> vh = rh \<and> frh' = frh
      else \<exists>st2 v1 fr1 st3. value_free rh st1 = Inr st2 \<and>
             eval_stmt_h k b frh st2 = Some (Inr (v1, fr1, st3)) \<and>
             (if fst fr1 then stop_h v1 fr1 st3 = Inr (vh, frh', sth')
              else eval_while_h k c b v1 fr1 st3 = Some (Inr (vh, frh', sth'))))"
  using assms
  by (fastforce simp add: eval_while_h.simps split: option.splits sum.splits if_splits)

lemma S_while_Suc:
  assumes "S_expr k" "S_stmt k" "S_while k"
  shows "S_while (Suc k)"
  unfolding S_while_def
proof (intro allI impI)
  fix c b rh r frh fr sth st vh frh' sth'
  assume e: "eval_while_h (Suc k) c b rh frh sth = Some (Inr (vh, frh', sth'))" and s: "strel sth st"
    and f: "frrel (heap sth) frh fr" and rr: "vrel (heap sth) rh r"
  from eval_while_h_Inr [OF e] obtain condv st1 where
    a: "eval_expr_h k c sth = Some (Inr (condv, st1))" and
    q: "if vtype_h condv \<noteq> VAL_NUM \<or> deq (num_h condv) (Fin 0) \<or> fst frh
        then value_free condv st1 = Inr sth' \<and> vh = rh \<and> frh' = frh
        else \<exists>st2 v1 fr1 st3. value_free rh st1 = Inr st2 \<and>
             eval_stmt_h k b frh st2 = Some (Inr (v1, fr1, st3)) \<and>
             (if fst fr1 then stop_h v1 fr1 st3 = Inr (vh, frh', sth')
              else eval_while_h k c b v1 fr1 st3 = Some (Inr (vh, frh', sth')))"
    by blast
  from S_exprD [OF assms(1) a s] obtain ca sta1 where
    a': "eval_expr k c st = Some (Inr (ca, sta1))" and vc: "vrel (heap st1) condv ca" and
    s1: "strel st1 sta1" and h1: "hext (heap sth) (heap st1)"
    by blast
  have t: "vtype ca = vtype_h condv" "num ca = num_h condv" "fst fr = fst frh"
    using vc f by (simp_all add: vrel_def frrel_def)
  have f1: "frrel (heap st1) frh fr"
    using f h1 by (rule frrel_mono)
  have r1: "vrel (heap st1) rh r"
    using rr h1 by (rule vrel_mono)
  show "\<exists>v fr' st'. eval_while (Suc k) c b r fr st = Some (Inr (v, fr', st')) \<and> vrel (heap sth') vh v \<and>
        frrel (heap sth') frh' fr' \<and> strel sth' st' \<and> hext (heap sth) (heap sth')"
  proof (cases "vtype_h condv \<noteq> VAL_NUM \<or> deq (num_h condv) (Fin 0) \<or> fst frh")
    case True
    then have x: "value_free condv st1 = Inr sth'" "vh = rh" "frh' = frh"
      using q by simp_all
    have h2: "hstep st1 sth'"
      using x(1) by (rule value_free_hstep)
    have "eval_while (Suc k) c b r fr st = Some (Inr (r, fr, sta1))"
      using a' True t by (auto simp add: eval_while.simps)
    moreover have "vrel (heap sth') vh r" "frrel (heap sth') frh' fr"
      using x vrel_mono [OF r1 hstep_hext [OF h2]] frrel_mono [OF f1 hstep_hext [OF h2]] by simp_all
    ultimately show ?thesis
      using strel_hstep [OF s1 h2] hext_trans [OF h1 hstep_hext [OF h2]] by blast
  next
    case False
    then obtain st2 v1 fr1 st3 where
      x: "value_free rh st1 = Inr st2" and
      y: "eval_stmt_h k b frh st2 = Some (Inr (v1, fr1, st3))" and
      z: "if fst fr1 then stop_h v1 fr1 st3 = Inr (vh, frh', sth')
          else eval_while_h k c b v1 fr1 st3 = Some (Inr (vh, frh', sth'))"
      using q by auto
    have n: "\<not> (vtype ca \<noteq> VAL_NUM \<or> deq (num ca) (Fin 0) \<or> fst fr)"
      using False t by simp
    have h2: "hstep st1 st2"
      using x by (rule value_free_hstep)
    have s2: "strel st2 sta1"
      using s1 h2 by (rule strel_hstep)
    have f2: "frrel (heap st2) frh fr"
      using f1 hstep_hext [OF h2] by (rule frrel_mono)
    from S_stmtD [OF assms(2) y s2 f2] obtain va fra1 sta3 where
      y': "eval_stmt k b fr sta1 = Some (Inr (va, fra1, sta3))" and v3: "vrel (heap st3) v1 va" and
      f3: "frrel (heap st3) fr1 fra1" and s3: "strel st3 sta3" and h3: "hext (heap st2) (heap st3)"
      by blast
    have h03: "hext (heap sth) (heap st3)"
      using h1 hstep_hext [OF h2] h3 hext_trans by blast
    show ?thesis
    proof (cases "fst fr1")
      case True
      then have w: "stop_h v1 fr1 st3 = Inr (vh, frh', sth')"
        using z by simp
      have tt: "fst fra1" and r3: "vrel (heap st3) (snd fr1) (snd fra1)"
        using f3 True by (simp_all add: frrel_def)
      from stop_sim [OF w r3] have u: "frh' = fr1" "vrel (heap sth') vh (snd fra1)" "hstep st3 sth'"
        by simp_all
      have "eval_while (Suc k) c b r fr st = Some (Inr (snd fra1, fra1, sta3))"
        using a' n y' tt by (simp add: eval_while.simps)
      moreover have "frrel (heap sth') frh' fra1"
        using u(1) frrel_mono [OF f3 hstep_hext [OF u(3)]] by simp
      ultimately show ?thesis
        using u(2) strel_hstep [OF s3 u(3)] hext_trans [OF h03 hstep_hext [OF u(3)]] by blast
    next
      case nr: False
      then have w: "eval_while_h k c b v1 fr1 st3 = Some (Inr (vh, frh', sth'))"
        using z by simp
      have tt: "\<not> fst fra1"
        using f3 nr by (simp add: frrel_def)
      from S_whileD [OF assms(3) w s3 f3 v3] obtain v fr' st' where
        u: "eval_while k c b va fra1 sta3 = Some (Inr (v, fr', st'))" "vrel (heap sth') vh v"
          "frrel (heap sth') frh' fr'" "strel sth' st'" "hext (heap st3) (heap sth')"
        by blast
      have "eval_while (Suc k) c b r fr st = Some (Inr (v, fr', st'))"
        using a' n y' tt u(1) by (simp add: eval_while.simps)
      then show ?thesis
        using u hext_trans [OF h03] by blast
    qed
  qed
qed

lemma S_0: "S_stmt 0 \<and> S_list 0 \<and> S_while 0 \<and> S_expr 0 \<and> S_args 0"
  by (simp add: S_stmt_def S_list_def S_while_def S_expr_def S_args_def
      eval_stmt_h.simps eval_list_h.simps eval_while_h.simps eval_expr_h.simps eval_args_h.simps)

lemma S_all: "S_stmt k \<and> S_list k \<and> S_while k \<and> S_expr k \<and> S_args k"
proof (induction k)
  case 0
  show ?case by (rule S_0)
next
  case (Suc k)
  then show ?case
    using S_stmt_Suc S_list_Suc S_while_Suc S_expr_Suc S_args_Suc by blast
qed

text \<open>
  The simulation: a run of the evaluator with the heap that returns is matched by the
  evaluator on contents, from related states to related results. So what is proved above of
  every returning run of \<open>eval_expr\<close> and \<open>eval_stmt\<close> holds of the returning runs of the C
  code with its heap; the runs of the C code that use a freed block have no counterpart.
\<close>

lemma eval_expr_h_content:
  assumes "eval_expr_h k n sth = Some (Inr (vh, sth'))" and "strel sth st"
  shows "\<exists>v st'. eval_expr k n st = Some (Inr (v, st')) \<and> vrel (heap sth') vh v \<and> strel sth' st'"
  using S_exprD [OF _ assms] S_all [of k] by blast

lemma eval_stmt_h_content:
  assumes "eval_stmt_h k n frh sth = Some (Inr (vh, frh', sth'))" and "strel sth st"
    and "frrel (heap sth) frh fr"
  shows "\<exists>v fr' st'. eval_stmt k n fr st = Some (Inr (v, fr', st')) \<and> vrel (heap sth') vh v \<and>
     frrel (heap sth') frh' fr' \<and> strel sth' st'"
  using S_stmtD [OF _ assms] S_all [of k] by blast

lemma init_state_strel: "strel (init_state_h inp) (init_state inp)"
  by (simp add: strel_def init_state_h_def init_state_def push_scope_h_def push_scope_def screl_def)

text \<open>
  A program that the code runs to its end, from the state \<^verbatim>\<open>main\<close> starts with, has
  written what the evaluator on contents writes.
\<close>

lemma program_output:
  assumes "eval_stmt_h k prog (False, none_value_h) (init_state_h inp) = Some (Inr (vh, frh, sth))"
  shows "\<exists>v fr st. eval_stmt k prog (False, none_value) (init_state inp) = Some (Inr (v, fr, st)) \<and>
     stdout st = stdout_h sth \<and> fst fr = fst frh"
proof -
  have "frrel (heap (init_state_h inp)) (False, none_value_h) (False, none_value)"
    by (simp add: frrel_def)
  from eval_stmt_h_content [OF assms init_state_strel this] show ?thesis
    by (auto simp add: strel_def frrel_def)
qed

text \<open>
  Scope isolation with the heap: after a call that returns, the scopes of the caller are
  still related to the contents they were related to before the call. Every name is bound
  after the call if and only if it was bound before, with the type and the number it had,
  and with the string it had unless its block has been freed.
\<close>

lemma call_keeps_scopes:
  assumes "eval_expr_h k (N_EXPR_CALL name args) sth = Some (Inr (vh, sth'))" and "strel sth st"
  shows "list_all2 (screl (heap sth')) (scopes_h sth') (scopes st)
     \<and> (\<forall>x. rel_option (vrel (heap sth')) (var_get_h x (scopes_h sth')) (var_get x (scopes st)))"
proof -
  from eval_expr_h_content [OF assms] obtain v st' where
    a: "eval_expr k (N_EXPR_CALL name args) st = Some (Inr (v, st'))" and s: "strel sth' st'"
    by blast
  have "scopes st' = scopes st"
    using a by (rule eval_expr_scopes)
  then have "list_all2 (screl (heap sth')) (scopes_h sth') (scopes st)"
    using s by (simp add: strel_def)
  then show ?thesis
    using var_get_sim by blast
qed

subsection \<open>The operators and the call with the heap\<close>

text \<open>
  What the sections on contents prove of \<^verbatim>\<open>+\<close>, of \<^verbatim>\<open>/\<close>, of the scope of a call and of
  the returned signal, read off the evaluator with the heap. For \<^verbatim>\<open>+\<close> on a Number and a
  String whose block is live, the result is a new block with the concatenation, and the
  block of the operand is freed.
\<close>

lemma plus_with_heap:
  assumes "deref a st = Inr s"
  shows "eval_binary_h T_PLUS (num_value_h n) (str_value_h a) st
       = Inr (str_value_h (length (heap st)), st\<lparr>heap := (heap st @ [Live (fmt_g n @ s)])[a := Freed]\<rparr>)"
    and "eval_binary_h T_PLUS (str_value_h a) (num_value_h n) st
       = Inr (str_value_h (length (heap st)), st\<lparr>heap := (heap st @ [Live (s @ fmt_g n)])[a := Freed]\<rparr>)"
    and "eval_binary_h T_PLUS (num_value_h x) (num_value_h y) st = Inr (num_value_h (dadd x y), st)"
proof -
  have a: "a < length (heap st)" "heap st ! a = Live s"
    using deref_Inr [OF assms] by simp_all
  show "eval_binary_h T_PLUS (num_value_h n) (str_value_h a) st
       = Inr (str_value_h (length (heap st)), st\<lparr>heap := (heap st @ [Live (fmt_g n @ s)])[a := Freed]\<rparr>)"
    using a assms
    by (simp add: eval_binary_h_def operand_str_def num_value_h_def str_value_h_def value_free_def
        strdup_def free_h_def nth_append)
  show "eval_binary_h T_PLUS (str_value_h a) (num_value_h n) st
       = Inr (str_value_h (length (heap st)), st\<lparr>heap := (heap st @ [Live (s @ fmt_g n)])[a := Freed]\<rparr>)"
    using a assms
    by (simp add: eval_binary_h_def operand_str_def num_value_h_def str_value_h_def value_free_def
        strdup_def free_h_def nth_append)
  show "eval_binary_h T_PLUS (num_value_h x) (num_value_h y) st = Inr (num_value_h (dadd x y), st)"
    by (simp add: eval_binary_h_def num_binary_def num_value_h_def value_free_def)
qed

lemma div_zero_with_heap:
  assumes "vtype_h l = VAL_NUM" and "vtype_h r = VAL_NUM" and "deq (num_h r) (Fin 0)"
  shows "eval_binary_h T_DIV l r st = Inl (Division_by_zero, st)"
  using assms by (simp add: eval_binary_h_def num_binary_def)

text \<open>The new scope of a call stands on top of the whole scope stack of the caller.\<close>

lemma var_set_h_tl:
  "var_set_h p v st = Inr st' \<Longrightarrow> scopes_h st \<noteq> [] \<and> scopes_h st' \<noteq> [] \<and> tl (scopes_h st') = tl (scopes_h st)"
  by (auto simp add: var_set_h_def value_free_scopes split: list.splits option.splits sum.splits
      dest!: value_free_scopes)

lemma bind_params_h_tl:
  assumes "bind_params_h ps vs st = Inr st'" and "scopes_h st \<noteq> []"
  shows "scopes_h st' \<noteq> [] \<and> tl (scopes_h st') = tl (scopes_h st)"
  using assms
proof (induction ps vs st rule: bind_params_h.induct)
  case (1 p ps v vs st)
  from "1.prems"(1) obtain st1 st2 where a: "var_set_h p v st = Inr st1"
    and b: "value_free v st1 = Inr st2" and c: "bind_params_h ps vs st2 = Inr st'"
    by (auto split: sum.splits)
  have "scopes_h st2 \<noteq> []" "tl (scopes_h st2) = tl (scopes_h st)"
    using var_set_h_tl [OF a] value_free_scopes [OF b] by simp_all
  then show ?case
    using "1.IH" [OF a b c] by simp
qed simp_all

lemma call_scope_on_top:
  assumes "bind_params_h ps vs (push_scope_h st) = Inr st'"
  shows "tl (scopes_h st') = scopes_h st"
  using bind_params_h_tl [OF assms] by (simp add: push_scope_h_def)

text \<open>
  The returned signal with the heap: once a statement has set it, the loops of a statement
  list and of \<^verbatim>\<open>while\<close> stop with \<open>stop_h\<close>, and \<^verbatim>\<open>if\<close> passes the result of its branch
  on; whatever follows is not evaluated.
\<close>

lemma eval_list_h_stops:
  assumes "value_free l st0 = Inr st" and "eval_stmt_h k n fr st = Some (Inr (v, fr1, st1))"
    and "fst fr1"
  shows "eval_list_h (Suc k) (n # rest) l fr st0 = Some (stop_h v fr1 st1)"
  using assms by (simp add: eval_list_h.simps)

lemma eval_while_h_stops:
  assumes "eval_expr_h k c st0 = Some (Inr (condv, st))" and "vtype_h condv = VAL_NUM"
    and "\<not> deq (num_h condv) (Fin 0)" and "\<not> fst fr" and "value_free res st = Inr st'"
    and "eval_stmt_h k n fr st' = Some (Inr (v, fr1, st1))" and "fst fr1"
  shows "eval_while_h (Suc k) c n res fr st0 = Some (stop_h v fr1 st1)"
  using assms by (simp add: eval_while_h.simps)

lemma eval_if_h_then:
  assumes "eval_expr_h k c st0 = Some (Inr (condv, st))" and "vtype_h condv = VAL_NUM"
    and "\<not> deq (num_h condv) (Fin 0)" and "\<not> fst fr"
  shows "eval_stmt_h (Suc k) (N_STMT_IF c n eb) fr st0 = eval_stmt_h k n fr st"
  using assms by (simp add: eval_stmt_h.simps)

lemma eval_stmt_h_returned:
  "fst fr \<Longrightarrow> eval_stmt_h (Suc k) n fr st
     = (case value_dup (snd fr) st of Inl e \<Rightarrow> Some (Inl e) | Inr (v, st1) \<Rightarrow> Some (Inr (v, fr, st1)))"
  by (simp add: eval_stmt_h.simps)

text \<open>
  The example programs of the sections on contents hold no string: the code with its heap
  runs them to the end and writes the same output.
\<close>

lemma examples_h:
  "eval_stmt_h 20 dyn_prog (False, none_value_h) (init_state_h [])
     = Some (Inr (none_value_h, (False, none_value_h),
          \<lparr>scopes_h = [[]],
           func_table_h = [\<lparr>fname = ''g'', params = [], body = dyn_g_body\<rparr>,
                           \<lparr>fname = ''f'', params = [], body = dyn_f_body\<rparr>],
           heap = [], stdout_h = ''5'' @ [LF], stdin_h = []\<rparr>))"
  "eval_stmt_h 40 ret_prog (False, none_value_h) (init_state_h [])
     = Some (Inr (none_value_h, (False, none_value_h),
          \<lparr>scopes_h = [[]], func_table_h = [\<lparr>fname = ''f'', params = [], body = ret_f_body\<rparr>],
           heap = [], stdout_h = ''3'' @ [LF] @ ''7'' @ [LF], stdin_h = []\<rparr>))"
  by code_simp+

section \<open>Claims\<close>

subsection \<open>Claims about the lexer\<close>

text \<open>
  C10. Lexer totality. \<open>next_token\<close> is a total function (each of its loops is defined with
  a termination proof), so every call returns. Calling it repeatedly from any lexer state,
  up to and including the first end-of-input token, gives the finite list \<open>token_stream\<close>:
  its last token is end-of-input, it holds exactly one end-of-input token, it is at most one
  longer than the number of unread bytes, and every call that returns another token than
  end-of-input moves the cursor forward by at least one character.
\<close>

theorem lexer_totality:
  "ttype (last (token_stream lx)) = T_EOF
   \<and> length (filter (\<lambda>t. ttype t = T_EOF) (token_stream lx)) = 1
   \<and> length (token_stream lx) \<le> Suc (remaining lx)
   \<and> (ttype (fst (next_token lx)) = T_EOF \<or> pos lx < pos (snd (next_token lx)))"
  using token_stream_last [of lx] token_stream_count [of lx] token_stream_length [of lx]
    next_token_pos [of lx]
  by blast

text \<open>
  C6. The lexer never emits a Dot token, in either revision: \<open>next_token\<close> and
  \<open>next_token_v1\<close> never return \<open>T_DOT\<close>, from any lexer state, and no token of a token
  stream is \<open>T_DOT\<close>. A dot that \<open>next_token\<close> meets at the start of a token is handed to
  \<open>lex_ident_or_number\<close>, because the test \<^verbatim>\<open>isdigit(c) || c=='.'\<close> stands before the
  \<open>T_DOT\<close> case; a standalone dot is the Number token with the lexeme \<^verbatim>\<open>.\<close>.
\<close>

theorem lexer_never_emits_dot:
  "ttype (fst (next_token lx)) \<noteq> T_DOT
   \<and> ttype (fst (next_token_v1 lx)) \<noteq> T_DOT
   \<and> T_DOT \<notin> ttype ` set (token_stream lx)
   \<and> (peekc lx = CHR ''.'' \<longrightarrow>
        dispatch lx = lex_ident_or_number lx \<and> dispatch_v1 lx = lex_ident_or_number lx \<and>
        ttype (fst (next_token lx)) \<in> {T_NUMBER, T_IDENTIFIER})"
proof -
  have "ttype (fst (next_token lx)) \<in> {T_NUMBER, T_IDENTIFIER}" if d: "peekc lx = CHR ''.''"
  proof -
    have "skip_blank lx = (None, lx)"
      using d by (subst skip_blank.simps) (simp add: Let_def)
    then have "next_token lx = lex_ident_or_number lx"
      using dispatch_dot(1) [OF d] by (simp add: next_token_def)
    then show ?thesis
      using lex_ident_or_number_ttype [of lx] by auto
  qed
  then show ?thesis
    using next_token_not_DOT [of lx] next_token_v1_not_DOT [of lx] token_stream_not_DOT [of lx]
      dispatch_dot [of lx]
    by blast
qed

theorem lexer_never_emits_dot_witness:
  "peekc (lexer_init ''.'') = CHR ''.''
   \<and> next_token (lexer_init ''.'') = (make_token T_NUMBER (Some ''.''), \<lparr>src = ''.'', pos = 1, line = 1\<rparr>)
   \<and> next_token_v1 (lexer_init ''.'') = (make_token T_NUMBER (Some ''.''), \<lparr>src = ''.'', pos = 1, line = 1\<rparr>)
   \<and> dispatch (lexer_init ''.'') = lex_ident_or_number (lexer_init ''.'')
   \<and> ttype (fst (next_token (lexer_init ''.''))) \<noteq> T_DOT"
proof -
  have h: "peekc (lexer_init ''.'') = CHR ''.''"
    by (simp add: lexer_init_def peekc_def)
  have a: "next_token (lexer_init ''.'') = (make_token T_NUMBER (Some ''.''), \<lparr>src = ''.'', pos = 1, line = 1\<rparr>)"
    by code_simp
  have b: "next_token_v1 (lexer_init ''.'') = (make_token T_NUMBER (Some ''.''), \<lparr>src = ''.'', pos = 1, line = 1\<rparr>)"
    by code_simp
  show ?thesis
    using h a b lexer_never_emits_dot [of "lexer_init ''.''"] by simp
qed

text \<open>
  C9. Line endings. Let \<open>next_token\<close> be called with \<open>n\<close> blanks (spaces or tabs, \<open>n\<close> may be
  0) between the cursor and a line ending, and the line counter below the largest \<^verbatim>\<open>int\<close>.
  At a line feed, and at a carriage return followed by a line feed, it returns exactly one
  Newline token, consumes the blanks and exactly that line ending, and advances the line
  counter by exactly one, as the claim says. At a carriage return that no line feed follows
  it returns exactly one Newline token and consumes the carriage return, but the line counter
  stays as it was: \<open>getc_l\<close> counts line feeds only. That is where the code leaves the claim.
  A comment is skipped together with the line feed that ends it: the line counter advances by
  one and the token returned is the one that follows that line feed.
\<close>

theorem newline_tokens:
  assumes "\<forall>i<n. peekc (lx\<lparr>pos := pos lx + i\<rparr>) = CHR '' '' \<or> peekc (lx\<lparr>pos := pos lx + i\<rparr>) = TAB"
  shows "(peekc (lx\<lparr>pos := pos lx + n\<rparr>) = LF \<and> line lx < 2147483647 \<longrightarrow>
            next_token lx = (make_token T_NEWLINE None, lx\<lparr>pos := pos lx + n + 1, line := line lx + 1\<rparr>))
     \<and> (peekc (lx\<lparr>pos := pos lx + n\<rparr>) = CR \<and> peekc (lx\<lparr>pos := pos lx + n + 1\<rparr>) = LF \<and>
          line lx < 2147483647 \<longrightarrow>
            next_token lx = (make_token T_NEWLINE None, lx\<lparr>pos := pos lx + n + 2, line := line lx + 1\<rparr>))
     \<and> (peekc (lx\<lparr>pos := pos lx + n\<rparr>) = CR \<and> peekc (lx\<lparr>pos := pos lx + n + 1\<rparr>) \<noteq> LF \<longrightarrow>
            next_token lx = (make_token T_NEWLINE None, lx\<lparr>pos := pos lx + n + 1\<rparr>) \<and>
            line (snd (next_token lx)) = line lx)
     \<and> (\<forall>m. peekc (lx\<lparr>pos := pos lx + n\<rparr>) = CHR ''#'' \<and>
            (\<forall>j<m. peekc (lx\<lparr>pos := pos lx + n + j\<rparr>) \<noteq> LF \<and> peekc (lx\<lparr>pos := pos lx + n + j\<rparr>) \<noteq> NUL) \<and>
            peekc (lx\<lparr>pos := pos lx + n + m\<rparr>) = LF \<and> line lx < 2147483647 \<longrightarrow>
            next_token lx = next_token (lx\<lparr>pos := pos lx + n + m + 1, line := line lx + 1\<rparr>))"
proof -
  let ?l = "lx\<lparr>pos := pos lx + n\<rparr>"
  have b: "next_token lx = next_token ?l"
    using assms by (rule next_token_blanks)
  have 1: "peekc ?l = LF \<longrightarrow>
      next_token lx = (make_token T_NEWLINE None, lx\<lparr>pos := pos lx + n + 1, line := line lx + 1\<rparr>)"
    using next_token_LF [of ?l] b by simp
  have 2: "peekc ?l = CR \<and> peekc (lx\<lparr>pos := pos lx + n + 1\<rparr>) = LF \<longrightarrow>
      next_token lx = (make_token T_NEWLINE None, lx\<lparr>pos := pos lx + n + 2, line := line lx + 1\<rparr>)"
    using next_token_CR [of ?l] b by simp
  have 3: "peekc ?l = CR \<and> peekc (lx\<lparr>pos := pos lx + n + 1\<rparr>) \<noteq> LF \<longrightarrow>
      next_token lx = (make_token T_NEWLINE None, lx\<lparr>pos := pos lx + n + 1\<rparr>) \<and>
      line (snd (next_token lx)) = line lx"
    using next_token_CR [of ?l] b by simp
  have 4: "next_token lx = next_token (lx\<lparr>pos := pos lx + n + m + 1, line := line lx + 1\<rparr>)"
    if "peekc ?l = CHR ''#''"
      "\<forall>j<m. peekc (lx\<lparr>pos := pos lx + n + j\<rparr>) \<noteq> LF \<and> peekc (lx\<lparr>pos := pos lx + n + j\<rparr>) \<noteq> NUL"
      "peekc (lx\<lparr>pos := pos lx + n + m\<rparr>) = LF" for m
    using next_token_comment [of ?l m] that b by simp
  show ?thesis
    using 1 2 3 4 by blast
qed

theorem newline_tokens_witness:
  "peekc ((lexer_init ('' '' @ [TAB, LF] @ ''a''))\<lparr>pos := 0\<rparr>) = CHR '' ''
   \<and> peekc ((lexer_init ('' '' @ [TAB, LF] @ ''a''))\<lparr>pos := 1\<rparr>) = TAB
   \<and> peekc ((lexer_init ('' '' @ [TAB, LF] @ ''a''))\<lparr>pos := 2\<rparr>) = LF
   \<and> next_token (lexer_init ('' '' @ [TAB, LF] @ ''a''))
       = (make_token T_NEWLINE None, \<lparr>src = '' '' @ [TAB, LF] @ ''a'', pos = 3, line = 2\<rparr>)
   \<and> next_token (lexer_init ([CR, LF] @ ''a''))
       = (make_token T_NEWLINE None, \<lparr>src = [CR, LF] @ ''a'', pos = 2, line = 2\<rparr>)
   \<and> next_token (lexer_init ([CR] @ ''b''))
       = (make_token T_NEWLINE None, \<lparr>src = [CR] @ ''b'', pos = 1, line = 1\<rparr>)
   \<and> next_token (lexer_init (''#c'' @ [LF] @ ''x''))
       = next_token \<lparr>src = ''#c'' @ [LF] @ ''x'', pos = 3, line = 2\<rparr>
   \<and> next_token (lexer_init (''#c'' @ [LF] @ ''x''))
       = (make_token T_IDENTIFIER (Some ''x''), \<lparr>src = ''#c'' @ [LF] @ ''x'', pos = 4, line = 2\<rparr>)"
proof -
  let ?a = "lexer_init ('' '' @ [TAB, LF] @ ''a'')"
  have h: "\<forall>i<2. peekc (?a\<lparr>pos := pos ?a + i\<rparr>) = CHR '' '' \<or> peekc (?a\<lparr>pos := pos ?a + i\<rparr>) = TAB"
    by (simp add: lexer_init_def peekc_def numeral_2_eq_2 less_Suc_eq)
  have h0: "\<forall>i<(0::nat). peekc (l\<lparr>pos := pos l + i\<rparr>) = CHR '' '' \<or> peekc (l\<lparr>pos := pos l + i\<rparr>) = TAB" for l
    by simp
  note a = newline_tokens [OF h, THEN conjunct1]
  note b = newline_tokens [OF h0, of "lexer_init ([CR, LF] @ ''a'')", THEN conjunct2, THEN conjunct1]
  note c = newline_tokens [OF h0, of "lexer_init ([CR] @ ''b'')", THEN conjunct2, THEN conjunct2, THEN conjunct1]
  note d = newline_tokens [OF h0, of "lexer_init (''#c'' @ [LF] @ ''x'')", THEN conjunct2, THEN conjunct2,
      THEN conjunct2, rule_format, of 2]
  have 1: "next_token ?a = (make_token T_NEWLINE None, \<lparr>src = '' '' @ [TAB, LF] @ ''a'', pos = 3, line = 2\<rparr>)"
    using a by (simp add: lexer_init_def peekc_def)
  have 2: "next_token (lexer_init ([CR, LF] @ ''a''))
       = (make_token T_NEWLINE None, \<lparr>src = [CR, LF] @ ''a'', pos = 2, line = 2\<rparr>)"
    using b by (simp add: lexer_init_def peekc_def)
  have 3: "next_token (lexer_init ([CR] @ ''b''))
       = (make_token T_NEWLINE None, \<lparr>src = [CR] @ ''b'', pos = 1, line = 1\<rparr>)"
    using c by (simp add: lexer_init_def peekc_def)
  have 4: "next_token (lexer_init (''#c'' @ [LF] @ ''x''))
       = next_token \<lparr>src = ''#c'' @ [LF] @ ''x'', pos = 3, line = 2\<rparr>"
    using d by (simp add: lexer_init_def peekc_def less_Suc_eq eval_nat_numeral)
  have 5: "next_token \<lparr>src = ''#c'' @ [LF] @ ''x'', pos = 3, line = 2\<rparr>
       = (make_token T_IDENTIFIER (Some ''x''), \<lparr>src = ''#c'' @ [LF] @ ''x'', pos = 4, line = 2\<rparr>)"
    by code_simp
  have p: "peekc (?a\<lparr>pos := 0\<rparr>) = CHR '' ''" "peekc (?a\<lparr>pos := 1\<rparr>) = TAB" "peekc (?a\<lparr>pos := 2\<rparr>) = LF"
    by (simp_all add: lexer_init_def peekc_def)
  show ?thesis
    using p 1 2 3 4 5 by simp
qed

subsection \<open>Claims about the evaluator\<close>

text \<open>
  C4. Scope isolation. When a function call returns normally, the scope stack of the caller
  is what it was before the call, so the lookup of every name gives the caller the same
  result after the call as before it: no binding made in the scope of the callee (nor in
  the scopes of the calls it made) is visible afterwards.
\<close>

theorem scope_isolation:
  assumes "eval_expr k (N_EXPR_CALL name args) st = Some (Inr (v, st'))"
  shows "scopes st' = scopes st \<and> (\<forall>x. var_get x (scopes st') = var_get x (scopes st))"
  using eval_expr_scopes [OF assms] by simp

theorem scope_isolation_witness:
  "eval_expr 9 (N_EXPR_CALL ''f'' [N_EXPR_BINARY T_PLUS (N_EXPR_VAR ''x'') (N_EXPR_NUMBER (Fin 10))]) demo_state
     = Some (Inr (num_value (Fin 15), demo_state\<lparr>stdout := ''15'' @ [LF]\<rparr>))
   \<and> scopes (demo_state\<lparr>stdout := ''15'' @ [LF]\<rparr>) = scopes demo_state
   \<and> var_get ''t'' (scopes (demo_state\<lparr>stdout := ''15'' @ [LF]\<rparr>)) = None
   \<and> var_get ''x'' (scopes (demo_state\<lparr>stdout := ''15'' @ [LF]\<rparr>)) = Some (num_value (Fin 4))"
proof -
  have h: "eval_expr 9 (N_EXPR_CALL ''f'' [N_EXPR_BINARY T_PLUS (N_EXPR_VAR ''x'') (N_EXPR_NUMBER (Fin 10))]) demo_state
     = Some (Inr (num_value (Fin 15), demo_state\<lparr>stdout := ''15'' @ [LF]\<rparr>))"
    using demo_call_result by (simp add: demo_call_def)
  have "var_get ''t'' (scopes demo_state) = None" "var_get ''x'' (scopes demo_state) = Some (num_value (Fin 4))"
    by (simp_all add: demo_state_def var_get_def)
  then show ?thesis
    using h scope_isolation [OF h] by simp
qed

text \<open>
  C7 (as amended). For every Number \<open>n\<close> and String \<open>s\<close>, the binary \<^verbatim>\<open>+\<close> on \<open>(n, s)\<close> or
  \<open>(s, n)\<close> yields the String that concatenates, in operand order, \<open>s\<close> and the rendering of
  \<open>n\<close> by \<^verbatim>\<open>printf\<close> with \<^verbatim>\<open>%g\<close> (\<open>fmt_g\<close>: six significant digits, trailing zeros
  removed); when both operands are Numbers it yields their sum as a \<^verbatim>\<open>double\<close>.
\<close>

theorem plus_coercion:
  "eval_binary T_PLUS (num_value n) (str_value s) = Inr (str_value (fmt_g n @ s))
   \<and> eval_binary T_PLUS (str_value s) (num_value n) = Inr (str_value (s @ fmt_g n))
   \<and> eval_binary T_PLUS (num_value a) (num_value b) = Inr (num_value (dadd a b))
   \<and> eval_expr (Suc (Suc k)) (N_EXPR_BINARY T_PLUS (N_EXPR_NUMBER n) (N_EXPR_STRING s)) st
        = Some (Inr (str_value (fmt_g n @ s), st))
   \<and> eval_expr (Suc (Suc k)) (N_EXPR_BINARY T_PLUS (N_EXPR_STRING s) (N_EXPR_NUMBER n)) st
        = Some (Inr (str_value (s @ fmt_g n), st))
   \<and> eval_expr (Suc (Suc k)) (N_EXPR_BINARY T_PLUS (N_EXPR_NUMBER a) (N_EXPR_NUMBER b)) st
        = Some (Inr (num_value (dadd a b), st))"
proof -
  have 1: "eval_binary T_PLUS (num_value n) (str_value s) = Inr (str_value (fmt_g n @ s))"
    and 2: "eval_binary T_PLUS (str_value s) (num_value n) = Inr (str_value (s @ fmt_g n))"
    and 3: "eval_binary T_PLUS (num_value a) (num_value b) = Inr (num_value (dadd a b))"
    by (simp_all add: eval_binary_def num_value_def str_value_def)
  show ?thesis
    using 1 2 3 by (simp add: eval_expr_binary [OF eval_expr_number eval_expr_string]
        eval_expr_binary [OF eval_expr_string eval_expr_number]
        eval_expr_binary [OF eval_expr_number eval_expr_number])
qed

theorem plus_coercion_witness:
  "eval_binary T_PLUS (num_value (Fin 42)) (str_value ''value='') = Inr (str_value ''42value='')
   \<and> eval_binary T_PLUS (str_value ''value='') (num_value (Fin 42)) = Inr (str_value ''value=42'')
   \<and> eval_binary T_PLUS (num_value (Fin 2)) (num_value (Fin 12)) = Inr (num_value (Fin 14))
   \<and> eval_expr 2 (N_EXPR_BINARY T_PLUS (N_EXPR_STRING ''value='') (N_EXPR_NUMBER (Fin 42))) demo_state
        = Some (Inr (str_value ''value=42'', demo_state))"
proof -
  have f: "fmt_g (Fin 42) = ''42''" and d: "dadd (Fin 2) (Fin 12) = Fin 14"
    by code_simp+
  show ?thesis
    using plus_coercion [of "Fin 42" "''value=''" "Fin 2" "Fin 12" 0 demo_state] f d
    by (simp add: numeral_2_eq_2)
qed

text \<open>
  C7 as stated fails: the rendering is not a round-trip form. The literal \<^verbatim>\<open>100000.25\<close> is
  the number 400001/4; adding the string \<^verbatim>\<open>x\<close> to it gives \<^verbatim>\<open>100000x\<close>, and \<^verbatim>\<open>100000\<close>
  read back is another number.
\<close>

theorem plus_coercion_counterexample:
  "atof ''100000.25'' = Fin (400001 / 4)
   \<and> eval_binary T_PLUS (num_value (Fin (400001 / 4))) (str_value ''x'') = Inr (str_value ''100000x'')
   \<and> fmt_g (Fin (400001 / 4)) = ''100000''
   \<and> atof ''100000'' = Fin 100000
   \<and> atof ''100000'' \<noteq> Fin (400001 / 4)"
  by code_simp

text \<open>
  C8 (as amended). In the second revision, every evaluation of the binary \<^verbatim>\<open>/\<close> whose
  operands are Numbers and whose right operand equals zero (positive or negative) raises
  the runtime error "Division by zero": the operator yields no value, and \<open>eval_expr\<close>
  ends with that error. The first revision makes no such test: there the same division
  yields a Number, the quotient of IEEE 754, which is an infinity or NaN.
\<close>

theorem division_by_zero:
  assumes "vtype l = VAL_NUM" and "vtype r = VAL_NUM" and "deq (num r) (Fin 0)"
  shows "eval_binary T_DIV l r = Inl Division_by_zero
     \<and> (eval_expr k a st = Some (Inr (l, st1)) \<and> eval_expr k b st1 = Some (Inr (r, st2)) \<longrightarrow>
          eval_expr (Suc k) (N_EXPR_BINARY T_DIV a b) st = Some (Inl (Division_by_zero, st2)))
     \<and> eval_binary_v1 T_DIV l r = num_value (ddiv (num l) (num r))
     \<and> vtype (eval_binary_v1 T_DIV l r) = VAL_NUM
     \<and> (is_inf (ddiv (num l) (num r)) \<or> is_nan (ddiv (num l) (num r)))
     \<and> (eval_expr_v1 vars a = l \<and> eval_expr_v1 vars b = r \<longrightarrow>
          eval_expr_v1 vars (N_EXPR_BINARY T_DIV a b) = num_value (ddiv (num l) (num r)))"
proof -
  have d: "eval_binary T_DIV l r = Inl Division_by_zero"
    using assms by (simp add: eval_binary_def)
  have e: "eval_expr k a st = Some (Inr (l, st1)) \<and> eval_expr k b st1 = Some (Inr (r, st2)) \<longrightarrow>
          eval_expr (Suc k) (N_EXPR_BINARY T_DIV a b) st = Some (Inl (Division_by_zero, st2))"
    using d by (auto simp add: eval_expr_binary)
  have v: "eval_binary_v1 T_DIV l r = num_value (ddiv (num l) (num r))"
    by (simp add: eval_binary_v1_def)
  have t: "vtype (eval_binary_v1 T_DIV l r) = VAL_NUM"
    using v by (simp add: num_value_def)
  have z: "is_zero (num r) \<and> \<not> is_inf (num r) \<and> \<not> is_nan (num r)"
    using assms(3) by (cases "num r") (auto simp add: deq_def is_zero_def is_inf_def is_nan_def dval_def)
  have q: "is_inf (ddiv (num l) (num r)) \<or> is_nan (ddiv (num l) (num r))"
    using z by (auto simp add: ddiv_def signed_inf_def is_inf_def is_nan_def)
  have x: "eval_expr_v1 vars a = l \<and> eval_expr_v1 vars b = r \<longrightarrow>
          eval_expr_v1 vars (N_EXPR_BINARY T_DIV a b) = num_value (ddiv (num l) (num r))"
    using v by auto
  show ?thesis
    using d e v t q x by blast
qed

theorem division_by_zero_witness:
  "vtype (num_value (Fin 1)) = VAL_NUM \<and> vtype (num_value NegZero) = VAL_NUM
   \<and> deq (num (num_value NegZero)) (Fin 0)
   \<and> eval_expr 1 (N_EXPR_NUMBER (Fin 1)) demo_state = Some (Inr (num_value (Fin 1), demo_state))
   \<and> eval_expr 1 (N_EXPR_NUMBER NegZero) demo_state = Some (Inr (num_value NegZero, demo_state))
   \<and> eval_binary T_DIV (num_value (Fin 1)) (num_value NegZero) = Inl Division_by_zero
   \<and> eval_expr 2 (N_EXPR_BINARY T_DIV (N_EXPR_NUMBER (Fin 1)) (N_EXPR_NUMBER NegZero)) demo_state
       = Some (Inl (Division_by_zero, demo_state))"
proof -
  have h: "vtype (num_value (Fin 1)) = VAL_NUM" "vtype (num_value NegZero) = VAL_NUM"
    "deq (num (num_value NegZero)) (Fin 0)"
    by (simp_all add: num_value_def deq_def is_nan_def is_inf_def dval_def)
  have e: "eval_expr 1 (N_EXPR_NUMBER (Fin 1)) demo_state = Some (Inr (num_value (Fin 1), demo_state))"
    "eval_expr 1 (N_EXPR_NUMBER NegZero) demo_state = Some (Inr (num_value NegZero, demo_state))"
    using eval_expr_number [of 0] by simp_all
  note t = division_by_zero [OF h, of 1 "N_EXPR_NUMBER (Fin 1)" demo_state demo_state
        "N_EXPR_NUMBER NegZero" demo_state]
  show ?thesis
    using h e t [THEN conjunct1] t [THEN conjunct2, THEN conjunct1]
    by (simp add: numeral_2_eq_2)
qed

text \<open>
  C8 as stated fails for the first revision, which has no test for zero: there
  \<^verbatim>\<open>1 / 0\<close> evaluates to a Number, the positive infinity.
\<close>

theorem division_by_zero_counterexample:
  "eval_expr_v1 [] (N_EXPR_BINARY T_DIV (N_EXPR_NUMBER (Fin 1)) (N_EXPR_NUMBER (Fin 0))) = num_value PosInf
   \<and> vtype (eval_expr_v1 [] (N_EXPR_BINARY T_DIV (N_EXPR_NUMBER (Fin 1)) (N_EXPR_NUMBER (Fin 0)))) = VAL_NUM
   \<and> deq (Fin 0) (Fin 0)"
  by code_simp

text \<open>
  C1. Argument capture, in the code with its heap. The argument of a call is evaluated in
  the state of the caller, before the scope of the callee is pushed, and \<^verbatim>\<open>var_set\<close>
  binds the parameter to its value in the new scope, as the claim says. But the binding loop
  then calls \<^verbatim>\<open>value_free\<close> on that same value, and \<^verbatim>\<open>var_set\<close> has made no copy of
  it. For a Number nothing is freed, and the body reads the parameter as the value of the
  argument. For a String the block that the parameter points to is freed before the body
  starts: every read of the parameter in the body is a use of freed memory, not the value of
  the caller. The theorem is for a function of one parameter \<open>p\<close> and any argument \<open>a\<close> that
  evaluates to a value \<open>v\<close>.
\<close>

theorem call_argument_capture:
  assumes "func_get name (func_table_h st) = Some f" and "params f = [p]"
    and "eval_expr_h k a st = Some (Inr (v, st1))"
  shows "eval_args_h (Suc k) [a] st = Some (Inr ([v], st1))
     \<and> scopes_h (call_entry_h p v st1) = [(p, v)] # scopes_h st1
     \<and> var_get_h p (scopes_h (call_entry_h p v st1)) = Some v
     \<and> (vtype_h v = VAL_NUM \<longrightarrow>
          bind_params_h (params f) [v] (push_scope_h st1) = Inr (call_entry_h p v st1) \<and>
          heap (call_entry_h p v st1) = heap st1 \<and>
          eval_expr_h (Suc (Suc k)) (N_EXPR_CALL name [a]) st
            = (case eval_stmt_h (Suc k) (body f) (False, none_value_h) (call_entry_h p v st1) of
                 None \<Rightarrow> None
               | Some (Inl err) \<Rightarrow> Some (Inl err)
               | Some (Inr (func_result, fr, st3)) \<Rightarrow> Some (call_return_h func_result fr st3)) \<and>
          (\<forall>j. eval_expr_h (Suc j) (N_EXPR_VAR p) (call_entry_h p v st1)
                 = Some (Inr (v, call_entry_h p v st1))))
     \<and> (vtype_h v = VAL_STR \<and> str_h v = Some b \<and> b < length (heap st1) \<and> heap st1 ! b = Live w \<longrightarrow>
          bind_params_h (params f) [v] (push_scope_h st1) = Inr (call_entry_h p v st1) \<and>
          heap (call_entry_h p v st1) = (heap st1)[b := Freed] \<and>
          heap (call_entry_h p v st1) ! b = Freed \<and>
          eval_expr_h (Suc (Suc k)) (N_EXPR_CALL name [a]) st
            = (case eval_stmt_h (Suc k) (body f) (False, none_value_h) (call_entry_h p v st1) of
                 None \<Rightarrow> None
               | Some (Inl err) \<Rightarrow> Some (Inl err)
               | Some (Inr (func_result, fr, st3)) \<Rightarrow> Some (call_return_h func_result fr st3)) \<and>
          (\<forall>j. eval_expr_h (Suc j) (N_EXPR_VAR p) (call_entry_h p v st1)
                 = Some (Inl (Use_after_free, call_entry_h p v st1))))"
proof -
  have 1: "eval_args_h (Suc k) [a] st = Some (Inr ([v], st1))"
    using assms(3) by (rule eval_args_h_single)
  have 2: "scopes_h (call_entry_h p v st1) = [(p, v)] # scopes_h st1"
    by (simp add: call_entry_h_def)
  have 3: "var_get_h p (scopes_h (call_entry_h p v st1)) = Some v"
    using 2 by (simp add: var_get_h_entry)
  have n: "bind_params_h (params f) [v] (push_scope_h st1) = Inr (call_entry_h p v st1) \<and>
          heap (call_entry_h p v st1) = heap st1 \<and>
          eval_expr_h (Suc (Suc k)) (N_EXPR_CALL name [a]) st
            = (case eval_stmt_h (Suc k) (body f) (False, none_value_h) (call_entry_h p v st1) of
                 None \<Rightarrow> None
               | Some (Inl err) \<Rightarrow> Some (Inl err)
               | Some (Inr (func_result, fr, st3)) \<Rightarrow> Some (call_return_h func_result fr st3)) \<and>
          (\<forall>j. eval_expr_h (Suc j) (N_EXPR_VAR p) (call_entry_h p v st1)
                 = Some (Inr (v, call_entry_h p v st1)))"
    if t: "vtype_h v = VAL_NUM"
  proof -
    have e: "call_entry_h p v st1 = st1\<lparr>scopes_h := [(p, v)] # scopes_h st1\<rparr>"
      using t by (simp add: call_entry_h_def split: option.splits)
    have b: "bind_params_h [p] [v] (push_scope_h st1) = Inr (call_entry_h p v st1)"
      using bind_params_h_num [OF t] e by simp
    have h: "heap (call_entry_h p v st1) = heap st1"
      using e by simp
    have c: "eval_expr_h (Suc (Suc k)) (N_EXPR_CALL name [a]) st
            = (case eval_stmt_h (Suc k) (body f) (False, none_value_h) (call_entry_h p v st1) of
                 None \<Rightarrow> None
               | Some (Inl err) \<Rightarrow> Some (Inl err)
               | Some (Inr (func_result, fr, st3)) \<Rightarrow> Some (call_return_h func_result fr st3))"
      using assms b by (rule eval_expr_h_call_single)
    have r: "eval_expr_h (Suc j) (N_EXPR_VAR p) (call_entry_h p v st1)
                 = Some (Inr (v, call_entry_h p v st1))" for j
      using 3 t by (simp add: eval_expr_h.simps value_dup_def)
    show ?thesis
      using b h c r assms(2) by simp
  qed
  have s: "bind_params_h (params f) [v] (push_scope_h st1) = Inr (call_entry_h p v st1) \<and>
          heap (call_entry_h p v st1) = (heap st1)[b := Freed] \<and>
          heap (call_entry_h p v st1) ! b = Freed \<and>
          eval_expr_h (Suc (Suc k)) (N_EXPR_CALL name [a]) st
            = (case eval_stmt_h (Suc k) (body f) (False, none_value_h) (call_entry_h p v st1) of
                 None \<Rightarrow> None
               | Some (Inl err) \<Rightarrow> Some (Inl err)
               | Some (Inr (func_result, fr, st3)) \<Rightarrow> Some (call_return_h func_result fr st3)) \<and>
          (\<forall>j. eval_expr_h (Suc j) (N_EXPR_VAR p) (call_entry_h p v st1)
                 = Some (Inl (Use_after_free, call_entry_h p v st1)))"
    if t: "vtype_h v = VAL_STR" "str_h v = Some b" "b < length (heap st1)" "heap st1 ! b = Live w"
  proof -
    have e: "call_entry_h p v st1 = st1\<lparr>scopes_h := [(p, v)] # scopes_h st1, heap := (heap st1)[b := Freed]\<rparr>"
      using t by (simp add: call_entry_h_def)
    have b: "bind_params_h [p] [v] (push_scope_h st1) = Inr (call_entry_h p v st1)"
      using bind_params_h_str [OF t] e by simp
    have h: "heap (call_entry_h p v st1) = (heap st1)[b := Freed]"
      using e by simp
    have h': "heap (call_entry_h p v st1) ! b = Freed"
      using h t(3) by simp
    have c: "eval_expr_h (Suc (Suc k)) (N_EXPR_CALL name [a]) st
            = (case eval_stmt_h (Suc k) (body f) (False, none_value_h) (call_entry_h p v st1) of
                 None \<Rightarrow> None
               | Some (Inl err) \<Rightarrow> Some (Inl err)
               | Some (Inr (func_result, fr, st3)) \<Rightarrow> Some (call_return_h func_result fr st3))"
      using assms b by (rule eval_expr_h_call_single)
    have d: "deref b (call_entry_h p v st1) = Inl (Use_after_free, call_entry_h p v st1)"
      using h h' t(3) by (simp add: deref_def)
    have r: "eval_expr_h (Suc j) (N_EXPR_VAR p) (call_entry_h p v st1)
                 = Some (Inl (Use_after_free, call_entry_h p v st1))" for j
      using 3 t(1,2) d by (simp add: eval_expr_h.simps value_dup_def)
    show ?thesis
      using b h h' c r assms(2) by simp
  qed
  show ?thesis
    using 1 2 3 n s by blast
qed

theorem call_argument_capture_witness:
  "func_get ''f'' (func_table_h capture_state) = Some capture_f
   \<and> params capture_f = [''s'']
   \<and> eval_expr_h 5 (N_EXPR_STRING ''hello'') capture_state
        = Some (Inr (str_value_h 0, capture_state\<lparr>heap := [Live ''hello'']\<rparr>))
   \<and> vtype_h (str_value_h 0) = VAL_STR \<and> str_h (str_value_h 0) = Some 0
   \<and> heap (capture_state\<lparr>heap := [Live ''hello'']\<rparr>) ! 0 = Live ''hello''
   \<and> var_get_h ''s'' (scopes_h (call_entry_h ''s'' (str_value_h 0) (capture_state\<lparr>heap := [Live ''hello'']\<rparr>)))
        = Some (str_value_h 0)
   \<and> heap (call_entry_h ''s'' (str_value_h 0) (capture_state\<lparr>heap := [Live ''hello'']\<rparr>)) = [Freed]
   \<and> eval_expr_h 3 (N_EXPR_VAR ''s'') (call_entry_h ''s'' (str_value_h 0) (capture_state\<lparr>heap := [Live ''hello'']\<rparr>))
        = Some (Inl (Use_after_free, call_entry_h ''s'' (str_value_h 0) (capture_state\<lparr>heap := [Live ''hello'']\<rparr>)))
   \<and> eval_expr_h 7 (N_EXPR_CALL ''f'' [N_EXPR_STRING ''hello'']) capture_state
        = Some (Inl (Use_after_free, call_entry_h ''s'' (str_value_h 0) (capture_state\<lparr>heap := [Live ''hello'']\<rparr>)))
   \<and> eval_stmt_h 9 (capture_prog (N_EXPR_STRING ''hello'')) (False, none_value_h) (init_state_h [])
        = Some (Inl (Use_after_free, call_entry_h ''s'' (str_value_h 0) (capture_state\<lparr>heap := [Live ''hello'']\<rparr>)))
   \<and> stdout_h (call_entry_h ''s'' (str_value_h 0) (capture_state\<lparr>heap := [Live ''hello'']\<rparr>)) = []
   \<and> eval_stmt_h 9 (capture_prog (N_EXPR_NUMBER (Fin 7))) (False, none_value_h) (init_state_h [])
        = Some (Inr (none_value_h, (False, none_value_h), capture_state\<lparr>stdout_h := ''7'' @ [LF]\<rparr>))"
proof -
  let ?st1 = "capture_state\<lparr>heap := [Live ''hello'']\<rparr>"
  let ?en = "call_entry_h ''s'' (str_value_h 0) ?st1"
  have h1: "func_get ''f'' (func_table_h capture_state) = Some capture_f"
    by (simp add: capture_state_def capture_f_def)
  have h2: "params capture_f = [''s'']"
    by (simp add: capture_f_def)
  have h3: "eval_expr_h 5 (N_EXPR_STRING ''hello'') capture_state = Some (Inr (str_value_h 0, ?st1))"
    by code_simp
  have v: "vtype_h (str_value_h 0) = VAL_STR" "str_h (str_value_h 0) = Some 0"
    "0 < length (heap ?st1)" "heap ?st1 ! 0 = Live ''hello''"
    by (simp_all add: str_value_h_def)
  note t = call_argument_capture [OF h1 h2 h3, of 0 "''hello''"]
  note t3 = t [THEN conjunct2, THEN conjunct2, THEN conjunct1]
  note t5 = t [THEN conjunct2, THEN conjunct2, THEN conjunct2, THEN conjunct2, rule_format, OF conjI [OF v(1) conjI [OF v(2) conjI [OF v(3) v(4)]]]]
  have hp: "heap ?en = [Freed]"
    using t5 [THEN conjunct2, THEN conjunct1] by simp
  have r: "eval_expr_h (Suc 2) (N_EXPR_VAR ''s'') ?en = Some (Inl (Use_after_free, ?en))"
    using t5 [THEN conjunct2, THEN conjunct2, THEN conjunct2, THEN conjunct2] by blast
  have b: "eval_stmt_h (Suc 5) (body capture_f) (False, none_value_h) ?en = Some (Inl (Use_after_free, ?en))"
    by code_simp
  have c: "eval_expr_h (Suc (Suc 5)) (N_EXPR_CALL ''f'' [N_EXPR_STRING ''hello'']) capture_state
      = Some (Inl (Use_after_free, ?en))"
    using t5 [THEN conjunct2, THEN conjunct2, THEN conjunct2, THEN conjunct1] b by simp
  have p: "eval_stmt_h 9 (capture_prog (N_EXPR_STRING ''hello'')) (False, none_value_h) (init_state_h [])
        = Some (Inl (Use_after_free, ?en))"
    by code_simp
  have o: "stdout_h ?en = []"
    by code_simp
  have q: "eval_stmt_h 9 (capture_prog (N_EXPR_NUMBER (Fin 7))) (False, none_value_h) (init_state_h [])
        = Some (Inr (none_value_h, (False, none_value_h), capture_state\<lparr>stdout_h := ''7'' @ [LF]\<rparr>))"
    by code_simp
  have c': "eval_expr_h 7 (N_EXPR_CALL ''f'' [N_EXPR_STRING ''hello'']) capture_state
      = Some (Inl (Use_after_free, ?en))"
    using c by (simp add: eval_nat_numeral)
  have r': "eval_expr_h 3 (N_EXPR_VAR ''s'') ?en = Some (Inl (Use_after_free, ?en))"
    using r by (simp add: eval_nat_numeral)
  show ?thesis
    using h1 h2 h3 v(1,2,4) t3 hp r' c' p o q by blast
qed

text \<open>
  C2 (as amended). Every function call pushes a fresh scope whose parent is the current
  scope of the caller (the Global scope only when the call is made at top level): the scope
  stack at the start of the body is the new scope on top of the whole stack of the caller.
  Lookup searches the current scope and then the rest of the stack, so during the body a
  name that is not a parameter is looked up as in the caller: the callee sees the local
  bindings of its dynamic callers unless it shadows them.
\<close>

theorem callee_scope_chain:
  assumes "func_get name (func_table st) = Some f"
    and "length (params f) = length args"
    and "eval_args k args st = Some (Inr (vs, st1))"
  shows "push_scope (scopes st) = [] # scopes st
     \<and> tl (scopes (call_entry f vs st1)) = scopes st
     \<and> (\<forall>x. x \<notin> set (params f) \<longrightarrow>
           var_get x (scopes (call_entry f vs st1)) = var_get x (scopes st))
     \<and> (\<forall>x s ss. var_get x (s # ss)
           = (case find_var x s of Some v \<Rightarrow> Some v | None \<Rightarrow> var_get x ss))
     \<and> (\<forall>r fr st2. eval_stmt k (body f) (False, none_value) (call_entry f vs st1) = Some (Inr (r, fr, st2))
           \<longrightarrow> eval_expr (Suc k) (N_EXPR_CALL name args) st
                 = Some (Inr (if fst fr then snd fr else r, call_exit st2)))"
proof -
  have s: "scopes st1 = scopes st"
    using assms(3) by (rule eval_args_scopes)
  have e: "scopes (call_entry f vs st1) = bind_params (params f) vs (push_scope (scopes st))"
    using s by (simp add: call_entry_def)
  have 1: "push_scope (scopes st) = [] # scopes st"
    by (simp add: push_scope_def)
  have 2: "tl (scopes (call_entry f vs st1)) = scopes st"
    using e by (simp add: bind_params_push_tl)
  have 3: "\<forall>x. x \<notin> set (params f) \<longrightarrow>
           var_get x (scopes (call_entry f vs st1)) = var_get x (scopes st)"
    using e by (simp add: var_get_bind_params_other)
  have 4: "\<forall>x s ss. var_get x (s # ss)
           = (case find_var x s of Some v \<Rightarrow> Some v | None \<Rightarrow> var_get x ss)"
    using var_get_Cons by blast
  have 5: "\<forall>r fr st2. eval_stmt k (body f) (False, none_value) (call_entry f vs st1) = Some (Inr (r, fr, st2))
           \<longrightarrow> eval_expr (Suc k) (N_EXPR_CALL name args) st
                 = Some (Inr (if fst fr then snd fr else r, call_exit st2))"
    using eval_expr_call [OF assms] by blast
  show ?thesis
    using 1 2 3 4 5 by blast
qed

theorem callee_scope_chain_witness:
  "func_get ''g'' (func_table dyn_state) = Some \<lparr>fname = ''g'', params = [], body = dyn_g_body\<rparr>
   \<and> eval_args 5 [] dyn_state = Some (Inr ([], dyn_state))
   \<and> tl (scopes (call_entry \<lparr>fname = ''g'', params = [], body = dyn_g_body\<rparr> [] dyn_state)) = scopes dyn_state
   \<and> var_get ''y'' (scopes (call_entry \<lparr>fname = ''g'', params = [], body = dyn_g_body\<rparr> [] dyn_state))
        = Some (num_value (Fin 5))
   \<and> eval_expr 6 (N_EXPR_CALL ''g'' []) dyn_state = Some (Inr (num_value (Fin 5), dyn_state))"
proof -
  let ?g = "\<lparr>fname = ''g'', params = [], body = dyn_g_body\<rparr>"
  have h1: "func_get ''g'' (func_table dyn_state) = Some ?g"
    by (simp add: dyn_state_def)
  have h2: "length (params ?g) = length ([] :: Node list)"
    by simp
  have h3: "eval_args 5 [] dyn_state = Some (Inr ([], dyn_state))"
    by code_simp
  have y: "var_get ''y'' (scopes dyn_state) = Some (num_value (Fin 5))"
    by code_simp
  have b: "eval_stmt 5 (body ?g) (False, none_value) (call_entry ?g [] dyn_state)
      = Some (Inr (num_value (Fin 5), (True, num_value (Fin 5)), call_entry ?g [] dyn_state))"
    by code_simp
  have x: "call_exit (call_entry ?g [] dyn_state) = dyn_state"
    by code_simp
  note t = callee_scope_chain [OF h1 h2 h3]
  note t2 = t [THEN conjunct2, THEN conjunct1]
  note t3 = t [THEN conjunct2, THEN conjunct2, THEN conjunct1]
  note t5 = t [THEN conjunct2, THEN conjunct2, THEN conjunct2, THEN conjunct2]
  have "var_get ''y'' (scopes (call_entry ?g [] dyn_state)) = var_get ''y'' (scopes dyn_state)"
    using t3 by simp
  then have p: "var_get ''y'' (scopes (call_entry ?g [] dyn_state)) = Some (num_value (Fin 5))"
    using y by simp
  have "eval_expr (Suc 5) (N_EXPR_CALL ''g'' []) dyn_state
      = Some (Inr (if fst (True, num_value (Fin 5)) then snd (True, num_value (Fin 5)) else num_value (Fin 5),
                   call_exit (call_entry ?g [] dyn_state)))"
    using t5 b by blast
  then have r: "eval_expr 6 (N_EXPR_CALL ''g'' []) dyn_state = Some (Inr (num_value (Fin 5), dyn_state))"
    using x by simp
  show ?thesis
    using h1 h3 t2 p r by blast
qed

text \<open>
  C2 as stated fails. In \<open>dyn_prog\<close> the function \<^verbatim>\<open>g\<close> reads \<^verbatim>\<open>y\<close>, which neither its own
  scope nor the Global scope binds: it is a local variable of its caller \<^verbatim>\<open>f\<close>. The
  program prints 5, where a lookup that could not see the caller's scope would stop with
  an undefined variable.
\<close>

theorem callee_scope_chain_counterexample:
  "eval_stmt 20 dyn_prog (False, none_value) (init_state [])
     = Some (Inr (none_value, (False, none_value),
          \<lparr>scopes = [[]],
           func_table = [\<lparr>fname = ''g'', params = [], body = dyn_g_body\<rparr>,
                         \<lparr>fname = ''f'', params = [], body = dyn_f_body\<rparr>],
           stdout = ''5'' @ [LF], stdin = []\<rparr>))
   \<and> find_var ''y'' [] = None
   \<and> find_var ''y'' (last [[], [(''y'', num_value (Fin 5))], []]) = None
   \<and> var_get ''y'' (push_scope [[(''y'', num_value (Fin 5))], []]) = Some (num_value (Fin 5))"
  by code_simp

text \<open>
  C3. Return propagation. A \<^verbatim>\<open>return\<close> statement sets the returned signal and yields
  the return value. Whenever a statement \<open>n\<close> (a \<^verbatim>\<open>return\<close>, or an \<^verbatim>\<open>if\<close>, a
  \<^verbatim>\<open>while\<close> or a statement list around one, to any depth) ends with the signal set, it
  yields the return value, and every enclosing construct honours the signal at once: a
  statement list that holds \<open>n\<close> stops there, whatever follows \<open>n\<close>; a \<^verbatim>\<open>while\<close> whose
  body is \<open>n\<close> stops without evaluating its condition again; an \<^verbatim>\<open>if\<close> with the branch
  \<open>n\<close> passes the signal on; any later statement does nothing; and the call whose body is
  \<open>n\<close> yields the return value after popping its scope. The signal belongs to the call:
  the statement of the caller that holds the call (\<^verbatim>\<open>print\<close>, \<^verbatim>\<open>set\<close>) leaves the
  caller's own signal as it was, so the caller continues after the call.
\<close>

theorem return_propagation:
  assumes "eval_stmt k n fr st = Some (Inr (v, fr1, st1))" and "fst fr1"
  shows "v = snd fr1
     \<and> (\<forall>rest l. eval_list (Suc k) (n # rest) l fr st = Some (Inr (snd fr1, fr1, st1)))
     \<and> (\<forall>c st0 condv res.
           eval_expr k c st0 = Some (Inr (condv, st)) \<and> vtype condv = VAL_NUM \<and>
           \<not> deq (num condv) (Fin 0) \<and> \<not> fst fr
           \<longrightarrow> eval_while (Suc k) c n res fr st0 = Some (Inr (snd fr1, fr1, st1)))
     \<and> (\<forall>c st0 condv eb.
           eval_expr k c st0 = Some (Inr (condv, st)) \<and> vtype condv = VAL_NUM \<and>
           \<not> deq (num condv) (Fin 0) \<and> \<not> fst fr
           \<longrightarrow> eval_stmt (Suc k) (N_STMT_IF c n eb) fr st0 = Some (Inr (snd fr1, fr1, st1)))
     \<and> (\<forall>c st0 condv b.
           eval_expr k c st0 = Some (Inr (condv, st)) \<and> vtype condv = VAL_NUM \<and>
           deq (num condv) (Fin 0) \<and> \<not> fst fr
           \<longrightarrow> eval_stmt (Suc k) (N_STMT_IF c b (Some n)) fr st0 = Some (Inr (snd fr1, fr1, st1)))
     \<and> (\<forall>name args st0 f vs sta.
           func_get name (func_table st0) = Some f \<and> body f = n \<and> length (params f) = length args \<and>
           eval_args k args st0 = Some (Inr (vs, sta)) \<and> st = call_entry f vs sta \<and>
           fr = (False, none_value)
           \<longrightarrow> eval_expr (Suc k) (N_EXPR_CALL name args) st0 = Some (Inr (snd fr1, call_exit st1)))
     \<and> (\<forall>j m. eval_stmt (Suc j) m fr1 st1 = Some (Inr (snd fr1, fr1, st1)))
     \<and> (\<forall>j e fr0 st0 v0 fr2 st2.
           eval_stmt j (N_STMT_RETURN e) fr0 st0 = Some (Inr (v0, fr2, st2)) \<longrightarrow> fst fr2 \<and> v0 = snd fr2)
     \<and> (\<forall>j e fr0 st0 v0 fr2 st2.
           eval_stmt j (N_STMT_PRINT e) fr0 st0 = Some (Inr (v0, fr2, st2)) \<longrightarrow> fr2 = fr0)
     \<and> (\<forall>j x e fr0 st0 v0 fr2 st2.
           eval_stmt j (N_STMT_SET x e) fr0 st0 = Some (Inr (v0, fr2, st2)) \<longrightarrow> fr2 = fr0)"
proof -
  have v: "v = snd fr1"
    using assms by (rule eval_stmt_returned_value)
  have e: "eval_stmt k n fr st = Some (Inr (snd fr1, fr1, st1))"
    using assms(1) v by simp
  have 1: "\<forall>rest l. eval_list (Suc k) (n # rest) l fr st = Some (Inr (snd fr1, fr1, st1))"
    using eval_list_stops [OF assms] by blast
  have 2: "\<forall>c st0 condv res.
           eval_expr k c st0 = Some (Inr (condv, st)) \<and> vtype condv = VAL_NUM \<and>
           \<not> deq (num condv) (Fin 0) \<and> \<not> fst fr
           \<longrightarrow> eval_while (Suc k) c n res fr st0 = Some (Inr (snd fr1, fr1, st1))"
    using eval_while_stops [OF _ _ _ _ assms] by blast
  have 3: "\<forall>c st0 condv eb.
           eval_expr k c st0 = Some (Inr (condv, st)) \<and> vtype condv = VAL_NUM \<and>
           \<not> deq (num condv) (Fin 0) \<and> \<not> fst fr
           \<longrightarrow> eval_stmt (Suc k) (N_STMT_IF c n eb) fr st0 = Some (Inr (snd fr1, fr1, st1))"
    using eval_if_then e by metis
  have 4: "\<forall>c st0 condv b.
           eval_expr k c st0 = Some (Inr (condv, st)) \<and> vtype condv = VAL_NUM \<and>
           deq (num condv) (Fin 0) \<and> \<not> fst fr
           \<longrightarrow> eval_stmt (Suc k) (N_STMT_IF c b (Some n)) fr st0 = Some (Inr (snd fr1, fr1, st1))"
    using eval_if_else e by metis
  have 5: "eval_expr (Suc k) (N_EXPR_CALL name args) st0 = Some (Inr (snd fr1, call_exit st1))"
    if "func_get name (func_table st0) = Some f" "body f = n" "length (params f) = length args"
      "eval_args k args st0 = Some (Inr (vs, sta))" "st = call_entry f vs sta" "fr = (False, none_value)"
    for name args st0 f vs sta
  proof -
    have "eval_stmt k (body f) (False, none_value) (call_entry f vs sta) = Some (Inr (v, fr1, st1))"
      using assms(1) that by simp
    from eval_expr_call [OF that(1) that(3) that(4) this] show ?thesis
      using assms(2) by simp
  qed
  have 6: "\<forall>j m. eval_stmt (Suc j) m fr1 st1 = Some (Inr (snd fr1, fr1, st1))"
    using eval_stmt_returned [OF assms(2)] by blast
  have 7: "\<forall>j e fr0 st0 v0 fr2 st2.
           eval_stmt j (N_STMT_RETURN e) fr0 st0 = Some (Inr (v0, fr2, st2)) \<longrightarrow> fst fr2 \<and> v0 = snd fr2"
    using eval_return_sets by blast
  have 8: "\<forall>j e fr0 st0 v0 fr2 st2.
           eval_stmt j (N_STMT_PRINT e) fr0 st0 = Some (Inr (v0, fr2, st2)) \<longrightarrow> fr2 = fr0"
    using eval_print_keeps by blast
  have 9: "\<forall>j x e fr0 st0 v0 fr2 st2.
           eval_stmt j (N_STMT_SET x e) fr0 st0 = Some (Inr (v0, fr2, st2)) \<longrightarrow> fr2 = fr0"
    using eval_set_keeps by blast
  show ?thesis
    using v 1 2 3 4 5 6 7 8 9 by blast
qed

theorem return_propagation_witness:
  "eval_stmt 6 ret_if (False, none_value) ret_state
       = Some (Inr (num_value (Fin 3), (True, num_value (Fin 3)), ret_state))
   \<and> fst (True, num_value (Fin 3))
   \<and> eval_list 7 [ret_if, N_STMT_SET ''i'' (N_EXPR_BINARY T_PLUS (N_EXPR_VAR ''i'') (N_EXPR_NUMBER (Fin 1)))]
         none_value (False, none_value) ret_state
       = Some (Inr (num_value (Fin 3), (True, num_value (Fin 3)), ret_state))
   \<and> eval_stmt 1 (N_STMT_RETURN (Some (N_EXPR_NUMBER (Fin 99)))) (True, num_value (Fin 3)) ret_state
       = Some (Inr (num_value (Fin 3), (True, num_value (Fin 3)), ret_state))
   \<and> eval_stmt 40 ret_prog (False, none_value) (init_state [])
       = Some (Inr (none_value, (False, none_value),
            \<lparr>scopes = [[]], func_table = [\<lparr>fname = ''f'', params = [], body = ret_f_body\<rparr>],
             stdout = ''3'' @ [LF] @ ''7'' @ [LF], stdin = []\<rparr>))"
proof -
  have h: "eval_stmt 6 ret_if (False, none_value) ret_state
       = Some (Inr (num_value (Fin 3), (True, num_value (Fin 3)), ret_state))"
    by code_simp
  have f: "fst (True, num_value (Fin 3))"
    by simp
  have p: "eval_stmt 40 ret_prog (False, none_value) (init_state [])
       = Some (Inr (none_value, (False, none_value),
            \<lparr>scopes = [[]], func_table = [\<lparr>fname = ''f'', params = [], body = ret_f_body\<rparr>],
             stdout = ''3'' @ [LF] @ ''7'' @ [LF], stdin = []\<rparr>))"
    by code_simp
  note t = return_propagation [OF h f]
  note t1 = t [THEN conjunct2, THEN conjunct1]
  note t6 = t [THEN conjunct2, THEN conjunct2, THEN conjunct2, THEN conjunct2, THEN conjunct2,
      THEN conjunct2, THEN conjunct1]
  have a: "eval_list (Suc 6) [ret_if, N_STMT_SET ''i'' (N_EXPR_BINARY T_PLUS (N_EXPR_VAR ''i'') (N_EXPR_NUMBER (Fin 1)))]
         none_value (False, none_value) ret_state
       = Some (Inr (snd (True, num_value (Fin 3)), (True, num_value (Fin 3)), ret_state))"
    using t1 by blast
  have b: "eval_stmt (Suc 0) (N_STMT_RETURN (Some (N_EXPR_NUMBER (Fin 99)))) (True, num_value (Fin 3)) ret_state
       = Some (Inr (snd (True, num_value (Fin 3)), (True, num_value (Fin 3)), ret_state))"
    using t6 by blast
  show ?thesis
    using h f p a b by simp
qed

section \<open>The parser and \<^verbatim>\<open>main\<close>\<close>

text \<open>
  The parser of the second revision, function by function. A token and a node of the syntax
  tree are values here: the parser copies every lexeme it keeps (\<^verbatim>\<open>strdup\<close>) before
  \<^verbatim>\<open>advance\<close> frees the token it came from, and nothing frees a node before the end of
  \<^verbatim>\<open>main\<close>.
\<close>

record Parser =
  lx :: Lexer
  cur :: Token

definition peek_token :: "Parser \<Rightarrow> Token" where
  "peek_token p = cur p"

definition advance :: "Parser \<Rightarrow> Parser" where
  "advance p = p\<lparr>lx := snd (next_token (lx p)), cur := fst (next_token (lx p))\<rparr>"

text \<open>
  A parse error is the \<^verbatim>\<open>exit(1)\<close> of the source: \<open>Parse_error\<close> holds the line number
  and the text of the diagnostic after \<^verbatim>\<open>Parse error at line %d:\<close>, without the token
  that \<^verbatim>\<open>expect\<close> and \<^verbatim>\<open>expect_stmt_terminator\<close> add to it. \<open>token_text\<close> reads the field
  \<^verbatim>\<open>text\<close> of a token where the source knows from the token type that the lexer has set
  it.
\<close>

definition expect :: "Parser \<Rightarrow> TokenType \<Rightarrow> string \<Rightarrow> error + Parser" where
  "expect p t msg =
     (if ttype (peek_token p) = t then Inr (advance p)
      else Inl (Parse_error (line (lx p)) (''expected '' @ msg)))"

definition token_text :: "Token \<Rightarrow> string" where
  "token_text t = (case tok_text t of Some s \<Rightarrow> s | None \<Rightarrow> [])"

definition is_else :: "Token \<Rightarrow> bool" where
  "is_else t = (ttype t = T_IDENTIFIER \<and> tok_text t = Some ''else'')"

definition expect_stmt_terminator :: "Parser \<Rightarrow> error + Parser" where
  "expect_stmt_terminator p =
     (let t = peek_token p
      in if ttype t = T_DOT \<or> ttype t = T_NEWLINE then Inr (advance p)
         else if ttype t = T_SET \<or> ttype t = T_PRINT \<or> ttype t = T_READ \<or> ttype t = T_IF \<or>
                 ttype t = T_WHILE \<or> ttype t = T_END \<or> ttype t = T_EOF \<or> ttype t = T_FUNCTION \<or>
                 ttype t = T_RETURN \<or> ttype t = T_RBRACE \<or> is_else t
         then Inr p
         else Inl (Parse_error (line (lx p)) (''expected '' @ [CHR 0x27] @ ''.'' @ [CHR 0x27] @ '' or newline'')))"

lemma next_token_remaining_le: "remaining (snd (next_token l)) \<le> remaining l"
proof (cases "ttype (fst (next_token l)) = T_EOF")
  case False
  then show ?thesis
    using next_token_remaining [of l] by simp
next
  case True
  show ?thesis
  proof (cases "fst (skip_blank l)")
    case None
    then have n: "next_token l = dispatch (snd (skip_blank l))"
      by (simp add: next_token_eq)
    then have "peekc (snd (skip_blank l)) = NUL"
      using True dispatch_EOF by simp
    then have "snd (dispatch (snd (skip_blank l))) = snd (skip_blank l)"
      by (simp add: dispatch_def)
    then show ?thesis
      using n skip_blank_remaining_le [of l] by simp
  next
    case (Some t)
    then show ?thesis
      using skip_blank_Some [of l t] by (simp add: next_token_eq)
  qed
qed

text \<open>The loop \<^verbatim>\<open>while (t.type == T_NEWLINE) { advance(p); t = peek_token(p); }\<close>.\<close>

function skip_newlines :: "Parser \<Rightarrow> Parser" where
  "skip_newlines p = (if ttype (peek_token p) = T_NEWLINE then skip_newlines (advance p) else p)"
  by pat_completeness auto
termination
proof (relation "measure (\<lambda>p. remaining (lx p) + (if ttype (cur p) = T_NEWLINE then 1 else 0))")
  show "wf (measure (\<lambda>p. remaining (lx p) + (if ttype (cur p) = T_NEWLINE then 1 else 0)))"
    by simp
next
  fix p
  assume "ttype (peek_token p) = T_NEWLINE"
  then have c: "ttype (cur p) = T_NEWLINE"
    by (simp add: peek_token_def)
  have "remaining (lx (advance p)) + (if ttype (cur (advance p)) = T_NEWLINE then 1 else 0)
      < remaining (lx p) + 1"
  proof (cases "ttype (cur (advance p)) = T_NEWLINE")
    case True
    then have "ttype (fst (next_token (lx p))) \<noteq> T_EOF"
      by (simp add: advance_def)
    then have "remaining (snd (next_token (lx p))) < remaining (lx p)"
      by (rule next_token_remaining)
    then show ?thesis
      using True by (simp add: advance_def)
  next
    case False
    then show ?thesis
      using next_token_remaining_le [of "lx p"] by (simp add: advance_def)
  qed
  then show "(advance p, p)
      \<in> measure (\<lambda>p. remaining (lx p) + (if ttype (cur p) = T_NEWLINE then 1 else 0))"
    using c by simp
qed

declare skip_newlines.simps [simp del]

text \<open>
  The loop of \<^verbatim>\<open>parse_func_def\<close> over the parameters that follow the first one; every
  round consumes an identifier. The array \<^verbatim>\<open>params\<close> has room for 16 names: the
  seventeenth is written past its end, which is undefined in C (\<open>Array_overflow\<close>).
\<close>

function parse_params :: "Parser \<Rightarrow> string list \<Rightarrow> error + string list \<times> Parser" where
  "parse_params p ps =
     (if ttype (peek_token p) = T_COMMA
      then (if ttype (peek_token (advance p)) \<noteq> T_IDENTIFIER
            then Inl (Parse_error (line (lx (advance p))) ''expected parameter name'')
            else if 16 \<le> length ps then Inl Array_overflow
            else parse_params (advance (advance p)) (ps @ [token_text (peek_token (advance p))]))
      else Inr (ps, p))"
  by pat_completeness auto
termination
proof (relation "measure (\<lambda>(p, ps). remaining (lx p))")
  show "wf (measure (\<lambda>(p, ps). remaining (lx p)))"
    by simp
next
  fix p :: Parser and ps :: "string list"
  assume "ttype (peek_token p) = T_COMMA" and "\<not> ttype (peek_token (advance p)) \<noteq> T_IDENTIFIER"
    and "\<not> 16 \<le> length ps"
  then have "ttype (fst (next_token (lx p))) \<noteq> T_EOF"
    by (simp add: advance_def peek_token_def)
  then have "remaining (snd (next_token (lx p))) < remaining (lx p)"
    by (rule next_token_remaining)
  moreover have "remaining (lx (advance (advance p))) \<le> remaining (snd (next_token (lx p)))"
    using next_token_remaining_le [of "snd (next_token (lx p))"] by (simp add: advance_def)
  ultimately show "((advance (advance p), ps @ [token_text (peek_token (advance p))]), p, ps)
      \<in> measure (\<lambda>(p, ps). remaining (lx p))"
    by simp
qed

declare parse_params.simps [simp del]
text \<open>
  The recursive descent, with fuel as for the evaluator: \<open>None\<close> says that the bound on
  the depth of the calls was too small, \<open>Some (Inl e)\<close> is a parse error. \<open>parse_args\<close> is
  the loop of \<^verbatim>\<open>parse_factor\<close> over the arguments after the first, \<open>parse_term_loop\<close>,
  \<open>parse_expression_loop\<close> and \<open>parse_and_loop\<close> are the loops of \<^verbatim>\<open>parse_term\<close>,
  \<^verbatim>\<open>parse_expression\<close> and \<^verbatim>\<open>parse_compare\<close>, and \<open>parse_statements_loop\<close> is the loop
  of \<^verbatim>\<open>parse_statements\<close> with the statements read so far. \<^verbatim>\<open>parse_statement\<close> returns
  \<open>None\<close> for the null pointer. The array \<^verbatim>\<open>args\<close> of a call has room for 16 arguments:
  the seventeenth is written past its end (\<open>Array_overflow\<close>).
\<close>

function (sequential)
      parse_factor :: "nat \<Rightarrow> Parser \<Rightarrow> (error + Node \<times> Parser) option"
  and parse_args :: "nat \<Rightarrow> Parser \<Rightarrow> Node list \<Rightarrow> (error + Node list \<times> Parser) option"
  and parse_term :: "nat \<Rightarrow> Parser \<Rightarrow> (error + Node \<times> Parser) option"
  and parse_term_loop :: "nat \<Rightarrow> Node \<Rightarrow> Parser \<Rightarrow> (error + Node \<times> Parser) option"
  and parse_expression :: "nat \<Rightarrow> Parser \<Rightarrow> (error + Node \<times> Parser) option"
  and parse_expression_loop :: "nat \<Rightarrow> Node \<Rightarrow> Parser \<Rightarrow> (error + Node \<times> Parser) option"
  and parse_compare :: "nat \<Rightarrow> Parser \<Rightarrow> (error + Node \<times> Parser) option"
  and parse_and_loop :: "nat \<Rightarrow> Node \<Rightarrow> Parser \<Rightarrow> (error + Node \<times> Parser) option"
  and parse_statements_loop :: "nat \<Rightarrow> Node list \<Rightarrow> Parser \<Rightarrow> (error + Node \<times> Parser) option"
  and parse_statement :: "nat \<Rightarrow> Parser \<Rightarrow> (error + Node option \<times> Parser) option"
  and parse_func_def :: "nat \<Rightarrow> Parser \<Rightarrow> (error + Node \<times> Parser) option"
  and parse_return_stmt :: "nat \<Rightarrow> Parser \<Rightarrow> (error + Node \<times> Parser) option"
where
  "parse_factor 0 p = None"
| "parse_factor (Suc k) p =
     (let tk = peek_token p
      in if ttype tk = T_NUMBER then Some (Inr (N_EXPR_NUMBER (atof (token_text tk)), advance p))
         else if ttype tk = T_STRING then Some (Inr (N_EXPR_STRING (token_text tk), advance p))
         else if ttype tk = T_IDENTIFIER
         then (if ttype (peek_token (advance p)) = T_LPAREN
               then (if ttype (peek_token (advance (advance p))) \<noteq> T_RPAREN
                     then (case parse_expression k (advance (advance p)) of
                             None \<Rightarrow> None
                           | Some (Inl e) \<Rightarrow> Some (Inl e)
                           | Some (Inr (a, p1)) \<Rightarrow>
                               (case parse_args k p1 [a] of
                                  None \<Rightarrow> None
                                | Some (Inl e) \<Rightarrow> Some (Inl e)
                                | Some (Inr (args, p2)) \<Rightarrow>
                                    (case expect p2 T_RPAREN '')'' of
                                       Inl e \<Rightarrow> Some (Inl e)
                                     | Inr p3 \<Rightarrow> Some (Inr (N_EXPR_CALL (token_text tk) args, p3)))))
                     else (case expect (advance (advance p)) T_RPAREN '')'' of
                             Inl e \<Rightarrow> Some (Inl e)
                           | Inr p3 \<Rightarrow> Some (Inr (N_EXPR_CALL (token_text tk) [], p3))))
               else Some (Inr (N_EXPR_VAR (token_text tk), advance p)))
         else if ttype tk = T_LPAREN
         then (case parse_expression k (advance p) of
                 None \<Rightarrow> None
               | Some (Inl e) \<Rightarrow> Some (Inl e)
               | Some (Inr (n, p1)) \<Rightarrow>
                   (case expect p1 T_RPAREN '')'' of
                      Inl e \<Rightarrow> Some (Inl e)
                    | Inr p2 \<Rightarrow> Some (Inr (n, p2))))
         else if ttype tk = T_MINUS
         then (case parse_factor k (advance p) of
                 None \<Rightarrow> None
               | Some (Inl e) \<Rightarrow> Some (Inl e)
               | Some (Inr (right, p1)) \<Rightarrow>
                   Some (Inr (N_EXPR_BINARY T_MINUS (N_EXPR_NUMBER (Fin 0)) right, p1)))
         else Some (Inl (Parse_error (line (lx p)) ''unexpected token in factor'')))"

| "parse_args 0 p args = None"
| "parse_args (Suc k) p args =
     (if ttype (peek_token p) = T_COMMA
      then (case parse_expression k (advance p) of
              None \<Rightarrow> None
            | Some (Inl e) \<Rightarrow> Some (Inl e)
            | Some (Inr (a, p1)) \<Rightarrow>
                if 16 \<le> length args then Some (Inl Array_overflow)
                else parse_args k p1 (args @ [a]))
      else Some (Inr (args, p)))"

| "parse_term 0 p = None"
| "parse_term (Suc k) p =
     (case parse_factor k p of
        None \<Rightarrow> None
      | Some (Inl e) \<Rightarrow> Some (Inl e)
      | Some (Inr (left, p1)) \<Rightarrow> parse_term_loop k left p1)"

| "parse_term_loop 0 left p = None"
| "parse_term_loop (Suc k) left p =
     (let tk = peek_token p
      in if ttype tk = T_MUL \<or> ttype tk = T_DIV \<or> ttype tk = T_MOD
         then (case parse_factor k (advance p) of
                 None \<Rightarrow> None
               | Some (Inl e) \<Rightarrow> Some (Inl e)
               | Some (Inr (right, p1)) \<Rightarrow>
                   parse_term_loop k (N_EXPR_BINARY (ttype tk) left right) p1)
         else Some (Inr (left, p)))"

| "parse_expression 0 p = None"
| "parse_expression (Suc k) p =
     (case parse_term k p of
        None \<Rightarrow> None
      | Some (Inl e) \<Rightarrow> Some (Inl e)
      | Some (Inr (left, p1)) \<Rightarrow> parse_expression_loop k left p1)"

| "parse_expression_loop 0 left p = None"
| "parse_expression_loop (Suc k) left p =
     (let tk = peek_token p
      in if ttype tk = T_PLUS \<or> ttype tk = T_MINUS
         then (case parse_term k (advance p) of
                 None \<Rightarrow> None
               | Some (Inl e) \<Rightarrow> Some (Inl e)
               | Some (Inr (right, p1)) \<Rightarrow>
                   parse_expression_loop k (N_EXPR_BINARY (ttype tk) left right) p1)
         else Some (Inr (left, p)))"

| "parse_compare 0 p = None"
| "parse_compare (Suc k) p =
     (case parse_expression k p of
        None \<Rightarrow> None
      | Some (Inl e) \<Rightarrow> Some (Inl e)
      | Some (Inr (node, p1)) \<Rightarrow>
          (let tk = peek_token p1
           in if ttype tk = T_LT \<or> ttype tk = T_LE \<or> ttype tk = T_GT \<or> ttype tk = T_GE \<or>
                 ttype tk = T_EQ \<or> ttype tk = T_NEQ
              then (case parse_expression k (advance p1) of
                      None \<Rightarrow> None
                    | Some (Inl e) \<Rightarrow> Some (Inl e)
                    | Some (Inr (right, p2)) \<Rightarrow>
                        parse_and_loop k (N_EXPR_BINARY (ttype tk) node right) p2)
              else parse_and_loop k node p1))"

| "parse_and_loop 0 node p = None"
| "parse_and_loop (Suc k) node p =
     (if ttype (peek_token p) = T_AND
      then (case parse_compare k (advance p) of
              None \<Rightarrow> None
            | Some (Inl e) \<Rightarrow> Some (Inl e)
            | Some (Inr (right, p1)) \<Rightarrow> parse_and_loop k (N_EXPR_BINARY T_AND node right) p1)
      else Some (Inr (node, p)))"

| "parse_statements_loop 0 stmts p = None"
| "parse_statements_loop (Suc k) stmts p =
     (let t = peek_token p
      in if ttype t = T_EOF \<or> ttype t = T_END \<or> ttype t = T_THEN \<or> ttype t = T_DO \<or>
            ttype t = T_RBRACE \<or> is_else t
         then Some (Inr (N_STMT_LIST stmts, p))
         else (case parse_statement k (skip_newlines p) of
                 None \<Rightarrow> None
               | Some (Inl e) \<Rightarrow> Some (Inl e)
               | Some (Inr (None, p1)) \<Rightarrow> Some (Inr (N_STMT_LIST stmts, p1))
               | Some (Inr (Some stmt, p1)) \<Rightarrow> parse_statements_loop k (stmts @ [stmt]) p1))"

| "parse_statement 0 p0 = None"
| "parse_statement (Suc k) p0 =
     (let p = skip_newlines p0; tk = peek_token p
      in if ttype tk = T_SET
         then (if ttype (peek_token (advance p)) \<noteq> T_IDENTIFIER
               then Some (Inl (Parse_error (line (lx (advance p))) (''expected identifier after '' @ [CHR 0x27] @ ''set'' @ [CHR 0x27])))
               else (case expect (advance (advance p)) T_TO ''to'' of
                       Inl e \<Rightarrow> Some (Inl e)
                     | Inr p1 \<Rightarrow>
                         (case parse_expression k p1 of
                            None \<Rightarrow> None
                          | Some (Inl e) \<Rightarrow> Some (Inl e)
                          | Some (Inr (expr, p2)) \<Rightarrow>
                              (case expect_stmt_terminator p2 of
                                 Inl e \<Rightarrow> Some (Inl e)
                               | Inr p3 \<Rightarrow>
                                   Some (Inr (Some (N_STMT_SET (token_text (peek_token (advance p))) expr), p3))))))
         else if ttype tk = T_PRINT
         then (case parse_expression k (advance p) of
                 None \<Rightarrow> None
               | Some (Inl e) \<Rightarrow> Some (Inl e)
               | Some (Inr (expr, p1)) \<Rightarrow>
                   (case expect_stmt_terminator p1 of
                      Inl e \<Rightarrow> Some (Inl e)
                    | Inr p2 \<Rightarrow> Some (Inr (Some (N_STMT_PRINT expr), p2))))
         else if ttype tk = T_READ
         then (if ttype (peek_token (advance p)) \<noteq> T_IDENTIFIER
               then Some (Inl (Parse_error (line (lx (advance p))) (''expected identifier after '' @ [CHR 0x27] @ ''read'' @ [CHR 0x27])))
               else (case expect_stmt_terminator (advance (advance p)) of
                       Inl e \<Rightarrow> Some (Inl e)
                     | Inr p1 \<Rightarrow> Some (Inr (Some (N_STMT_READ (token_text (peek_token (advance p)))), p1))))
         else if ttype tk = T_IF
         then (case parse_compare k (advance p) of
                 None \<Rightarrow> None
               | Some (Inl e) \<Rightarrow> Some (Inl e)
               | Some (Inr (cond, p1)) \<Rightarrow>
                   (case expect p1 T_THEN ''then'' of
                      Inl e \<Rightarrow> Some (Inl e)
                    | Inr p2 \<Rightarrow>
                        (case parse_statements_loop k [] p2 of
                           None \<Rightarrow> None
                         | Some (Inl e) \<Rightarrow> Some (Inl e)
                         | Some (Inr (stmts, p3)) \<Rightarrow>
                             (if is_else (peek_token p3)
                              then (case parse_statements_loop k [] (advance p3) of
                                      None \<Rightarrow> None
                                    | Some (Inl e) \<Rightarrow> Some (Inl e)
                                    | Some (Inr (else_body, p4)) \<Rightarrow>
                                        (case expect p4 T_END ([CHR 0x27] @ ''end'' @ [CHR 0x27] @ '' to close if'') of
                                           Inl e \<Rightarrow> Some (Inl e)
                                         | Inr p5 \<Rightarrow>
                                             (case expect_stmt_terminator p5 of
                                                Inl e \<Rightarrow> Some (Inl e)
                                              | Inr p6 \<Rightarrow>
                                                  Some (Inr (Some (N_STMT_IF cond stmts (Some else_body)), p6)))))
                              else (case expect p3 T_END ([CHR 0x27] @ ''end'' @ [CHR 0x27] @ '' to close if'') of
                                      Inl e \<Rightarrow> Some (Inl e)
                                    | Inr p5 \<Rightarrow>
                                        (case expect_stmt_terminator p5 of
                                           Inl e \<Rightarrow> Some (Inl e)
                                         | Inr p6 \<Rightarrow> Some (Inr (Some (N_STMT_IF cond stmts None), p6))))))))
         else if ttype tk = T_WHILE
         then (case parse_compare k (advance p) of
                 None \<Rightarrow> None
               | Some (Inl e) \<Rightarrow> Some (Inl e)
               | Some (Inr (cond, p1)) \<Rightarrow>
                   (case expect p1 T_DO ''do'' of
                      Inl e \<Rightarrow> Some (Inl e)
                    | Inr p2 \<Rightarrow>
                        (case parse_statements_loop k [] p2 of
                           None \<Rightarrow> None
                         | Some (Inl e) \<Rightarrow> Some (Inl e)
                         | Some (Inr (stmts, p3)) \<Rightarrow>
                             (case expect p3 T_END ([CHR 0x27] @ ''end'' @ [CHR 0x27] @ '' to close while'') of
                                Inl e \<Rightarrow> Some (Inl e)
                              | Inr p4 \<Rightarrow>
                                  (case expect_stmt_terminator p4 of
                                     Inl e \<Rightarrow> Some (Inl e)
                                   | Inr p5 \<Rightarrow> Some (Inr (Some (N_STMT_WHILE cond stmts), p5)))))))
         else if ttype tk = T_FUNCTION
         then (case parse_func_def k p of
                 None \<Rightarrow> None
               | Some (Inl e) \<Rightarrow> Some (Inl e)
               | Some (Inr (n, p1)) \<Rightarrow> Some (Inr (Some n, p1)))
         else if ttype tk = T_RETURN
         then (case parse_return_stmt k p of
                 None \<Rightarrow> None
               | Some (Inl e) \<Rightarrow> Some (Inl e)
               | Some (Inr (n, p1)) \<Rightarrow> Some (Inr (Some n, p1)))
         else if ttype tk = T_DOT then Some (Inr (None, advance p))
         else if ttype tk = T_EOF then Some (Inr (None, p))
         else (case parse_expression k p of
                 None \<Rightarrow> None
               | Some (Inl e) \<Rightarrow> Some (Inl e)
               | Some (Inr (expr, p1)) \<Rightarrow>
                   (case expect_stmt_terminator p1 of
                      Inl e \<Rightarrow> Some (Inl e)
                    | Inr p2 \<Rightarrow> Some (Inr (Some (N_STMT_PRINT expr), p2)))))"

| "parse_func_def 0 p0 = None"
| "parse_func_def (Suc k) p0 =
     (let p = advance p0
      in if ttype (peek_token p) \<noteq> T_IDENTIFIER
         then Some (Inl (Parse_error (line (lx p)) (''expected identifier after '' @ [CHR 0x27] @ ''function'' @ [CHR 0x27])))
         else (case expect (advance p) T_LPAREN ''('' of
                 Inl e \<Rightarrow> Some (Inl e)
               | Inr p1 \<Rightarrow>
                   (case (if ttype (peek_token p1) \<noteq> T_RPAREN
                          then (case tok_text (peek_token p1) of
                                  None \<Rightarrow> Inl Null_pointer
                                | Some s \<Rightarrow> parse_params (advance p1) [s])
                          else Inr ([], p1)) of
                      Inl e \<Rightarrow> Some (Inl e)
                    | Inr (ps, p2) \<Rightarrow>
                        (case expect p2 T_RPAREN '')'' of
                           Inl e \<Rightarrow> Some (Inl e)
                         | Inr p3 \<Rightarrow>
                             (case expect p3 T_LBRACE ''{'' of
                                Inl e \<Rightarrow> Some (Inl e)
                              | Inr p4 \<Rightarrow>
                                  (case parse_statements_loop k [] p4 of
                                     None \<Rightarrow> None
                                   | Some (Inl e) \<Rightarrow> Some (Inl e)
                                   | Some (Inr (b, p5)) \<Rightarrow>
                                       (case expect p5 T_RBRACE ''}'' of
                                          Inl e \<Rightarrow> Some (Inl e)
                                        | Inr p6 \<Rightarrow>
                                            Some (Inr (N_STMT_FUNCDEF (token_text (peek_token p)) ps b, p6)))))))))"

| "parse_return_stmt 0 p0 = None"
| "parse_return_stmt (Suc k) p0 =
     (let p = advance p0
      in if ttype (peek_token p) = T_DOT \<or> ttype (peek_token p) = T_NEWLINE \<or>
            ttype (peek_token p) = T_RBRACE
         then (case expect_stmt_terminator p of
                 Inl e \<Rightarrow> Some (Inl e)
               | Inr p1 \<Rightarrow> Some (Inr (N_STMT_RETURN None, p1)))
         else (case parse_expression k p of
                 None \<Rightarrow> None
               | Some (Inl e) \<Rightarrow> Some (Inl e)
               | Some (Inr (expr, p1)) \<Rightarrow>
                   (case expect_stmt_terminator p1 of
                      Inl e \<Rightarrow> Some (Inl e)
                    | Inr p2 \<Rightarrow> Some (Inr (N_STMT_RETURN (Some expr), p2)))))"
  by pat_completeness auto
termination
  by (relation "measure
        (case_sum (case_sum (case_sum fst (case_sum fst fst)) (case_sum fst (case_sum fst fst)))
                  (case_sum (case_sum fst (case_sum fst fst)) (case_sum fst (case_sum fst fst))))")
    simp_all

declare parse_factor.simps [simp del] parse_args.simps [simp del] parse_term.simps [simp del]
  parse_term_loop.simps [simp del] parse_expression.simps [simp del]
  parse_expression_loop.simps [simp del] parse_compare.simps [simp del]
  parse_and_loop.simps [simp del] parse_statements_loop.simps [simp del]
  parse_statement.simps [simp del] parse_func_def.simps [simp del]
  parse_return_stmt.simps [simp del]

definition parse_statements :: "nat \<Rightarrow> Parser \<Rightarrow> (error + Node \<times> Parser) option" where
  "parse_statements k p = parse_statements_loop k [] p"
subsection \<open>\<^verbatim>\<open>main\<close>\<close>

text \<open>
  \<^verbatim>\<open>main\<close> reads the file into \<^verbatim>\<open>src\<close>, starts the parser on it with a zeroed
  current token (type 0 is \<open>T_EOF\<close>, no text), pushes the global scope, reads the first
  token, parses the program and evaluates it.
\<close>

definition parser_init :: "string \<Rightarrow> Parser" where
  "parser_init s = \<lparr>lx = lexer_init s, cur = \<lparr>ttype = T_EOF, tok_text = None\<rparr>\<rparr>"

text \<open>
  After the evaluation \<^verbatim>\<open>main\<close> frees the result and the return value, the syntax tree
  (\<^verbatim>\<open>free_node\<close>) and the function table (\<^verbatim>\<open>free_func_table\<close>), and pops every scope.
  The syntax tree is not on the heap of this model. What is kept of the two functions is
  that \<^verbatim>\<open>func_set\<close> stores the parameter array and the body of a function definition by
  pointer, so that \<^verbatim>\<open>free_func_table\<close> reads and frees for every function in the table
  blocks that \<^verbatim>\<open>free_node\<close> has freed with the tree: with no function defined both
  succeed, with a function in the table the second is a use of freed memory.
\<close>

definition free_func_table :: "State_h \<Rightarrow> State_h result_h" where
  "free_func_table st = (if func_table_h st = [] then Inr st else Inl (Use_after_free, st))"

lemma pop_scope_h_length:
  assumes "scopes_h st \<noteq> []" and "pop_scope_h st = Inr st1"
  shows "length (scopes_h st1) < length (scopes_h st)"
proof -
  obtain s rest where s: "scopes_h st = s # rest"
    using assms(1) by (cases "scopes_h st") auto
  from assms(2) obtain st0 where "free_vars s st = Inr st0" and "st1 = st0\<lparr>scopes_h := rest\<rparr>"
    by (auto simp add: pop_scope_h_def s split: sum.splits)
  then show ?thesis
    using s by simp
qed

text \<open>The loop \<^verbatim>\<open>while (current_scope) pop_scope();\<close>.\<close>

function pop_all :: "State_h \<Rightarrow> State_h result_h" where
  "pop_all st =
     (if scopes_h st \<noteq> []
      then (case pop_scope_h st of Inl e \<Rightarrow> Inl e | Inr st1 \<Rightarrow> pop_all st1)
      else Inr st)"
  by pat_completeness auto
termination
  by (relation "measure (\<lambda>st. length (scopes_h st))") (simp_all add: pop_scope_h_length)

declare pop_all.simps [simp del]

definition cleanup :: "Value_h \<Rightarrow> Value_h \<Rightarrow> State_h \<Rightarrow> State_h result_h" where
  "cleanup main_res return_val st =
     (case value_free main_res st of
        Inl e \<Rightarrow> Inl e
      | Inr st1 \<Rightarrow>
          (case value_free return_val st1 of
             Inl e \<Rightarrow> Inl e
           | Inr st2 \<Rightarrow>
               (case free_func_table st2 of
                  Inl e \<Rightarrow> Inl e
                | Inr st3 \<Rightarrow> pop_all st3)))"

text \<open>
  The run of the interpreter on the source text \<open>s\<close> with the lines \<open>inp\<close> on the standard
  input, with fuel \<open>k\<close> for the parser and for the evaluator. \<open>Some (Inr out)\<close>: \<^verbatim>\<open>main\<close>
  returns 0 and \<open>out\<close> has been written to the standard output. \<open>Some (Inl (e, out))\<close>: the
  run stops with \<open>e\<close> after \<open>out\<close> has been written, by \<^verbatim>\<open>exit(1)\<close> with the diagnostic
  \<open>e\<close> on the standard error or, for \<open>Use_after_free\<close>, \<open>Double_free\<close>, \<open>Null_pointer\<close> and
  \<open>Array_overflow\<close>, in undefined behaviour.
\<close>

definition main :: "nat \<Rightarrow> string \<Rightarrow> (string \<times> double option) list \<Rightarrow> ((error \<times> string) + string) option" where
  "main k s inp =
     (case parse_statements k (advance (parser_init s)) of
        None \<Rightarrow> None
      | Some (Inl e) \<Rightarrow> Some (Inl (e, []))
      | Some (Inr (ast, p)) \<Rightarrow>
          (case eval_stmt_h k ast (False, none_value_h) (init_state_h inp) of
             None \<Rightarrow> None
           | Some (Inl (e, st)) \<Rightarrow> Some (Inl (e, stdout_h st))
           | Some (Inr (main_res, fr, st)) \<Rightarrow>
               (case cleanup main_res (snd fr) st of
                  Inl (e, st1) \<Rightarrow> Some (Inl (e, stdout_h st1))
                | Inr st1 \<Rightarrow> Some (Inr (stdout_h st1)))))"
subsection \<open>A program whose statements end with a dot\<close>

text \<open>
  C5. Scenario S1: the source text \<^verbatim>\<open>set a to 2 + 3 * 4.\<close>, a line feed, \<^verbatim>\<open>print a.\<close>
  The run does not print 14. The lexer takes the dot into the lexeme before it: the first
  line ends with the Number \<^verbatim>\<open>4.\<close> (which \<open>atof\<close> reads as 4, so \<open>a\<close> is set to 14), and the
  second line is the keyword \<^verbatim>\<open>print\<close> and the identifier \<^verbatim>\<open>a.\<close>, dot included. The
  parser builds the \<^verbatim>\<open>print\<close> of the variable \<^verbatim>\<open>a.\<close>, and the evaluation stops with the
  diagnostic for that undefined variable, with nothing written to the standard output. The
  same program without the two dots prints 14 and a line feed.
\<close>

theorem scenario_S1:
  "token_stream (lexer_init ''print a.'')
     = [make_token T_PRINT None, make_token T_IDENTIFIER (Some ''a.''), make_token T_EOF None]
   \<and> parse_statements 12 (advance (parser_init (''set a to 2 + 3 * 4.'' @ [LF] @ ''print a.'')))
     = Some (Inr (N_STMT_LIST
          [N_STMT_SET ''a'' (N_EXPR_BINARY T_PLUS (N_EXPR_NUMBER (Fin 2))
             (N_EXPR_BINARY T_MUL (N_EXPR_NUMBER (Fin 3)) (N_EXPR_NUMBER (Fin 4)))),
           N_STMT_PRINT (N_EXPR_VAR ''a.'')],
          \<lparr>lx = \<lparr>src = ''set a to 2 + 3 * 4.'' @ [LF] @ ''print a.'', pos = 28, line = 2\<rparr>,
           cur = make_token T_EOF None\<rparr>))
   \<and> main 12 (''set a to 2 + 3 * 4.'' @ [LF] @ ''print a.'') [] = Some (Inl (Undefined_variable ''a.'', []))
   \<and> main 12 (''set a to 2 + 3 * 4'' @ [LF] @ ''print a'') [] = Some (Inr (''14'' @ [LF]))"
  by code_simp

theorem scenario_S1_witness:
  "main 12 (''set a to 2 + 3 * 4.'' @ [LF] @ ''print a.'') [] \<noteq> Some (Inr (''14'' @ [LF]))"
  using scenario_S1 by simp

end
